theory Spec2Isabelle
  imports Complex_Main "HOL-Library.Word" "HOL-Library.Multiset"
begin

section \<open>SysMon: the sampling-and-delta engine and the interaction loop of sysmon.cpp\<close>

text \<open>
  A shallow embedding of \<^verbatim>\<open>sysmon.cpp\<close>. Conventions:
  \<^item> \<^verbatim>\<open>unsigned long long\<close> and \<^verbatim>\<open>size_t\<close> are \<open>64 word\<close>: subtraction and addition
    wrap around as in C++;
  \<^item> \<^verbatim>\<open>int\<close> values (pids, the selection index, the scroll offset, the refresh interval) are
    \<open>int\<close>. Where the code adds to or subtracts from an \<^verbatim>\<open>int\<close> without a check (the
    movement keys), the result wraps around at 32 bits; the value \<^verbatim>\<open>stoi\<close> returns is
    checked against the 32-bit range as \<^verbatim>\<open>stoi\<close> does;
  \<^item> a \<^verbatim>\<open>double\<close> is modelled by the real number it denotes, and the arithmetic on doubles
    by exact arithmetic on reals, so no rounding is modelled. The percentages that the
    examples below compute are whole numbers, which binary64 computes exactly as well. The
    code never divides by zero, so no NaN or infinity arises;
  \<^item> \<^verbatim>\<open>std::map<int, ProcInfo>\<close> is an association list that is kept in ascending key
    order, the order in which the range-based \<^verbatim>\<open>for\<close> loops visit it;
  \<^item> what the program reads from the operating system and from the terminal is an input
    of the model; what it writes to the terminal and the signals it sends are recorded in
    the state.
\<close>

subsection \<open>Data model\<close>

type_synonym u64 = "64 word"

record ProcTimes =
  utime :: u64
  stime :: u64

record ProcInfo =
  pid :: int
  user :: string
  name :: string
  cpu_percent :: real
  mem_kb :: u64
  mem_percent :: real
  ptimes :: ProcTimes
  total_time :: u64

datatype SortMode = SORT_CPU | SORT_MEM | SORT_PID

type_synonym procmap = "(int \<times> ProcInfo) list"

text \<open>\<^verbatim>\<open>procs[pid] = pi\<close> on a \<^verbatim>\<open>std::map\<close>: replace the value of an existing key, or
  insert the new key at its place in the ascending order.\<close>

fun map_assign :: "int \<Rightarrow> 'v \<Rightarrow> (int \<times> 'v) list \<Rightarrow> (int \<times> 'v) list" where
  "map_assign k v [] = [(k, v)]"
| "map_assign k v ((k', v') # rest) =
     (if k < k' then (k, v) # (k', v') # rest
      else if k = k' then (k, v) # rest
      else (k', v') # map_assign k v rest)"

subsection \<open>Rate engine\<close>

text \<open>The cast \<^verbatim>\<open>(double)x\<close> of an unsigned 64-bit value: its value as a real.\<close>

definition to_double :: "u64 \<Rightarrow> real" where
  "to_double x = real (unat x)"

text \<open>\<^verbatim>\<open>total_cpu_time\<close>: the wrapping sum of the fields.\<close>

definition total_cpu_time :: "u64 list \<Rightarrow> u64" where
  "total_cpu_time vals = foldl (\<lambda>sum v. sum + v) 0 vals"

text \<open>\<^verbatim>\<open>delta_proc\<close> in the loop of \<^verbatim>\<open>update_cpu_percent\<close>, for the entry \<open>kv\<close> of \<^verbatim>\<open>newp\<close>.\<close>

definition proc_delta :: "procmap \<Rightarrow> int \<times> ProcInfo \<Rightarrow> u64" where
  "proc_delta oldp kv =
     (let npi = snd kv;
          old_total_proc = (case map_of oldp (fst kv) of None \<Rightarrow> 0 | Some opi \<Rightarrow> total_time opi)
      in if total_time npi \<ge> old_total_proc then total_time npi - old_total_proc else 0)"

text \<open>The body of that loop.\<close>

definition update_one :: "procmap \<Rightarrow> u64 \<Rightarrow> int \<times> ProcInfo \<Rightarrow> int \<times> ProcInfo" where
  "update_one oldp total_delta kv =
     (let pct = 100 * to_double (proc_delta oldp kv) / to_double total_delta
      in (fst kv, (snd kv)\<lparr>cpu_percent := pct\<rparr>))"

definition update_cpu_percent :: "procmap \<Rightarrow> procmap \<Rightarrow> u64 \<Rightarrow> u64 \<Rightarrow> procmap" where
  "update_cpu_percent oldp newp old_total_cpu new_total_cpu =
     (let total_delta0 = new_total_cpu - old_total_cpu;
          total_delta = (if total_delta0 = 0 then 1 else total_delta0)
      in map (update_one oldp total_delta) newp)"

text \<open>The computation of \<^verbatim>\<open>old_idle\<close> and \<^verbatim>\<open>cur_idle\<close> in \<^verbatim>\<open>main\<close>: field 3 (idle) plus
  field 4 (iowait) when they exist.\<close>

definition idle_of :: "u64 list \<Rightarrow> u64" where
  "idle_of flds =
     (if length flds \<ge> 4
      then flds ! 3 + (if length flds > 4 then flds ! 4 else 0)
      else 0)"

text \<open>The system-wide percentage as \<^verbatim>\<open>main\<close> computes it from the two field vectors and the
  two totals.\<close>

definition system_cpu_percent :: "u64 list \<Rightarrow> u64 list \<Rightarrow> u64 \<Rightarrow> u64 \<Rightarrow> real" where
  "system_cpu_percent old_fields cur_fields old_total cur_total =
     (let old_idle = idle_of old_fields;
          cur_idle = idle_of cur_fields;
          idle_delta = cur_idle - old_idle;
          total_delta0 = cur_total - old_total;
          total_delta = (if total_delta0 = 0 then 1 else total_delta0)
      in 100 * (1 - to_double idle_delta / to_double total_delta))"

subsection \<open>Sorting\<close>

text \<open>The three comparators of \<^verbatim>\<open>sort_processes\<close>.\<close>

fun sort_comp :: "SortMode \<Rightarrow> ProcInfo \<Rightarrow> ProcInfo \<Rightarrow> bool" where
  "sort_comp SORT_CPU a b =
     (if cpu_percent a = cpu_percent b then pid a < pid b else cpu_percent a > cpu_percent b)"
| "sort_comp SORT_MEM a b =
     (if mem_percent a = mem_percent b then pid a < pid b else mem_percent a > mem_percent b)"
| "sort_comp SORT_PID a b = (pid a < pid b)"

text \<open>\<^verbatim>\<open>std::sort\<close> with a comparator. The standard fixes the result (a permutation of the
  input in which no later element comes before an earlier one) but not the algorithm; the
  model sorts by insertion. Where the comparator orders any two different elements of the
  input, every algorithm returns the same vector (lemma \<open>sorted_perm_unique\<close> below).\<close>

fun insert_sorted :: "('a \<Rightarrow> 'a \<Rightarrow> bool) \<Rightarrow> 'a \<Rightarrow> 'a list \<Rightarrow> 'a list" where
  "insert_sorted lt x [] = [x]"
| "insert_sorted lt x (y # ys) =
     (if lt y x then y # insert_sorted lt x ys else x # y # ys)"

fun std_sort :: "('a \<Rightarrow> 'a \<Rightarrow> bool) \<Rightarrow> 'a list \<Rightarrow> 'a list" where
  "std_sort lt [] = []"
| "std_sort lt (x # xs) = insert_sorted lt x (std_sort lt xs)"

definition sort_processes :: "ProcInfo list \<Rightarrow> SortMode \<Rightarrow> ProcInfo list" where
  "sort_processes vec mode = std_sort (sort_comp mode) vec"

text \<open>The postcondition of \<^verbatim>\<open>std::sort\<close>: no element comes before one that precedes it.\<close>

definition is_sorted_by :: "('a \<Rightarrow> 'a \<Rightarrow> bool) \<Rightarrow> 'a list \<Rightarrow> bool" where
  "is_sorted_by lt xs = sorted_wrt (\<lambda>a b. \<not> lt b a) xs"

subsection \<open>The operating system and the terminal, as inputs\<close>

text \<open>The keys \<^verbatim>\<open>getch\<close> can return: the four function keys the program handles, a
  character, or any other key code (\<^verbatim>\<open>ERR\<close> is \<open>None\<close> of \<open>Key option\<close>).\<close>

datatype Key = KEY_UP | KEY_DOWN | KEY_NPAGE | KEY_PPAGE | KeyChar char | KeyOther int

text \<open>The out-parameters of \<^verbatim>\<open>read_proc_times\<close> when it returns true.\<close>

record ProcRead =
  rd_times :: ProcTimes
  rd_rss_kb :: u64
  rd_comm :: string
  rd_uid :: "32 word"

text \<open>What the platform answers during one iteration of the main loop:
  \<^item> \<open>os_getch\<close>: the key \<^verbatim>\<open>getch()\<close> returns, if any;
  \<^item> \<open>os_total_cpu\<close>: the fields \<^verbatim>\<open>read_total_cpu\<close> stores, \<open>None\<close> when it returns before
    \<^verbatim>\<open>fields.clear()\<close> and leaves the vector as it was;
  \<^item> \<open>os_meminfo\<close>: total, free and available memory as \<^verbatim>\<open>read_meminfo\<close> stores them,
    \<open>None\<close> when \<^verbatim>\<open>/proc/meminfo\<close> cannot be opened and the variables keep their values;
  \<^item> \<open>os_pids\<close>: the result of \<^verbatim>\<open>list_pids()\<close>;
  \<^item> \<open>os_proc\<close>: \<^verbatim>\<open>read_proc_times\<close>, \<open>None\<close> when it returns false;
  \<^item> \<open>os_username\<close>: \<^verbatim>\<open>username_from_uid\<close>;
  \<^item> \<open>os_body_maxy\<close>: \<^verbatim>\<open>getmaxy(body)\<close>;
  \<^item> \<open>os_now_input\<close>, \<open>os_now\<close>: \<^verbatim>\<open>steady_clock::now()\<close> in nanoseconds, as read in the key
    handler and before the periodic refresh;
  \<^item> \<open>os_dialog_key\<close>: the key pressed in the dialog of \<^verbatim>\<open>confirm_kill\<close>;
  \<^item> \<open>os_kill_ok\<close>: whether \<^verbatim>\<open>kill(pid, sig)\<close> returns 0.\<close>

record OS =
  os_getch :: "Key option"
  os_total_cpu :: "u64 list option"
  os_meminfo :: "(u64 \<times> u64 \<times> u64) option"
  os_pids :: "int list"
  os_proc :: "int \<Rightarrow> ProcRead option"
  os_username :: "32 word \<Rightarrow> string"
  os_body_maxy :: int
  os_now_input :: int
  os_now :: int
  os_dialog_key :: Key
  os_kill_ok :: bool

subsection \<open>Snapshot reader\<close>

text \<open>The entry \<^verbatim>\<open>collect_processes\<close> builds for pid \<open>p\<close> from what \<^verbatim>\<open>read_proc_times\<close>
  returned.\<close>

definition proc_entry :: "OS \<Rightarrow> u64 \<Rightarrow> int \<Rightarrow> ProcRead \<Rightarrow> ProcInfo" where
  "proc_entry os mem_total p r =
     \<lparr>pid = p,
      user = os_username os (rd_uid r),
      name = rd_comm r,
      cpu_percent = 0,
      mem_kb = rd_rss_kb r,
      mem_percent =
        (if mem_total > 0 then (100 * to_double (rd_rss_kb r)) / to_double mem_total else 0),
      ptimes = rd_times r,
      total_time = utime (rd_times r) + stime (rd_times r)\<rparr>"

text \<open>The body of the loop of \<^verbatim>\<open>collect_processes\<close> for one pid: a pid that cannot be
  read is skipped.\<close>

definition collect_one :: "OS \<Rightarrow> u64 \<Rightarrow> procmap \<Rightarrow> int \<Rightarrow> procmap" where
  "collect_one os mem_total procs p =
     (case os_proc os p of
        None \<Rightarrow> procs
      | Some r \<Rightarrow> map_assign p (proc_entry os mem_total p r) procs)"

text \<open>\<^verbatim>\<open>collect_processes\<close> clears the map first, so its result does not depend on the map
  it is given.\<close>

definition collect_processes :: "OS \<Rightarrow> u64 \<Rightarrow> procmap" where
  "collect_processes os mem_total = foldl (collect_one os mem_total) [] (os_pids os)"

subsection \<open>Interaction state\<close>

text \<open>The local variables of \<^verbatim>\<open>main\<close>, and what the program has put out so far:
  \<open>screen\<close> holds the arguments of the last call of \<^verbatim>\<open>draw_processes\<close> (the vector, the
  selection and the page offset), \<open>dialogs\<close> the pids \<^verbatim>\<open>confirm_kill\<close> was called with,
  \<open>signals\<close> the calls \<^verbatim>\<open>kill(pid, sig)\<close>, oldest first.\<close>

record State =
  refresh_sec :: int
  sort_mode :: SortMode
  selected :: int
  page_offset :: int
  old_procs :: procmap
  cur_procs :: procmap
  old_cpu_fields :: "u64 list"
  cur_cpu_fields :: "u64 list"
  old_total_cpu :: u64
  mem_total_kb :: u64
  mem_free_kb :: u64
  mem_available_kb :: u64
  total_cpu_percent :: real
  running :: bool
  last_refresh :: int
  screen :: "(ProcInfo list \<times> int \<times> int) option"
  dialogs :: "int list"
  signals :: "(int \<times> int) list"

definition SIGTERM :: int where "SIGTERM = 15"
definition SIGKILL :: int where "SIGKILL = 9"

text \<open>\<^verbatim>\<open>seconds(n)\<close> as a duration of the steady clock, in nanoseconds.\<close>

definition seconds :: "int \<Rightarrow> int" where
  "seconds n = n * 1000000000"

subsection \<open>The refresh cycle\<close>

text \<open>``prepare vector view'' and ``compute mem\_percent updated'': the values of the map in
  key order, each with its memory percentage recomputed.\<close>

definition view_of :: "procmap \<Rightarrow> u64 \<Rightarrow> ProcInfo list" where
  "view_of procs mem_total =
     map (\<lambda>p. p\<lparr>mem_percent :=
                   (if mem_total > 0 then 100 * to_double (mem_kb p) / to_double mem_total
                    else 0)\<rparr>)
         (map snd procs)"

text \<open>``adjust selected bounds''.\<close>

definition clamp_selected :: "int \<Rightarrow> int \<Rightarrow> int" where
  "clamp_selected sel n =
     (let sel1 = (if sel \<ge> n then max 0 (n - 1) else sel)
      in if sel1 < 0 then 0 else sel1)"

text \<open>``adjust page offset to keep selected visible''.\<close>

definition adjust_page_offset :: "int \<Rightarrow> int \<Rightarrow> int \<Rightarrow> int" where
  "adjust_page_offset sel page_off maxy =
     (let body_rows0 = maxy - 3;
          body_rows = (if body_rows0 < 1 then 1 else body_rows0)
      in if sel < page_off then sel
         else if sel \<ge> page_off + body_rows then sel - body_rows + 1
         else page_off)"

text \<open>The block of \<^verbatim>\<open>main\<close> under ``refresh periodically''. \<^verbatim>\<open>draw_header\<close> reads the memory
  counters once more into variables of its own; that changes nothing in the state.\<close>

definition refresh_cycle :: "OS \<Rightarrow> State \<Rightarrow> State" where
  "refresh_cycle os s =
     (let cur_fields = (case os_total_cpu os of None \<Rightarrow> cur_cpu_fields s | Some fs \<Rightarrow> fs);
          cur_total_cpu = total_cpu_time cur_fields;
          mem = (case os_meminfo os of
                   None \<Rightarrow> (mem_total_kb s, mem_free_kb s, mem_available_kb s)
                 | Some m \<Rightarrow> m);
          mem_total = fst mem;
          procs = update_cpu_percent (old_procs s) (collect_processes os mem_total)
                    (old_total_cpu s) cur_total_cpu;
          pct = system_cpu_percent (old_cpu_fields s) cur_fields (old_total_cpu s) cur_total_cpu;
          pv = sort_processes (view_of procs mem_total) (sort_mode s);
          sel = clamp_selected (selected s) (int (length pv));
          page_off = adjust_page_offset sel (page_offset s) (os_body_maxy os)
      in s\<lparr>cur_cpu_fields := cur_fields,
            mem_total_kb := mem_total,
            mem_free_kb := fst (snd mem),
            mem_available_kb := snd (snd mem),
            cur_procs := procs,
            total_cpu_percent := pct,
            selected := sel,
            page_offset := page_off,
            screen := Some (pv, sel, page_off),
            old_procs := procs,
            old_cpu_fields := cur_fields,
            old_total_cpu := total_cpu_time cur_fields,
            last_refresh := os_now os\<rparr>)"

subsection \<open>Input handling\<close>

datatype fault = OutOfRange

text \<open>\<^verbatim>\<open>vec[i]\<close> on a \<^verbatim>\<open>std::vector\<close> with an \<^verbatim>\<open>int\<close> index: outside the vector the behaviour
  is undefined, which the model reports as a fault.\<close>

definition vec_at :: "'a list \<Rightarrow> int \<Rightarrow> fault + 'a" where
  "vec_at vec i = (if 0 \<le> i \<and> i < int (length vec) then Inr (vec ! nat i) else Inl OutOfRange)"

text \<open>\<^verbatim>\<open>confirm_kill\<close>: the dialog, the signal, the result. The windows it draws are not
  modelled; the failure dialog waits for one more key and changes nothing.\<close>

definition confirm_kill :: "OS \<Rightarrow> int \<Rightarrow> State \<Rightarrow> bool \<times> State" where
  "confirm_kill os p s =
     (let s1 = s\<lparr>dialogs := dialogs s @ [p]\<rparr>;
          ch = os_dialog_key os
      in if ch = KeyChar CHR ''t'' \<or> ch = KeyChar CHR ''T''
         then (os_kill_ok os, s1\<lparr>signals := signals s1 @ [(p, SIGTERM)]\<rparr>)
         else if ch = KeyChar CHR ''k'' \<or> ch = KeyChar CHR ''K''
         then (os_kill_ok os, s1\<lparr>signals := signals s1 @ [(p, SIGKILL)]\<rparr>)
         else (False, s1))"

text \<open>The branch of the key handler for \<^verbatim>\<open>'k'\<close> and \<^verbatim>\<open>'K'\<close>.\<close>

definition kill_selected :: "OS \<Rightarrow> State \<Rightarrow> fault + State" where
  "kill_selected os s =
     (let pv = sort_processes (map snd (cur_procs s)) (sort_mode s)
      in if selected s \<ge> 0 \<and> selected s < int (length pv)
         then (case vec_at pv (selected s) of
                 Inl f \<Rightarrow> Inl f
               | Inr p \<Rightarrow>
                   Inr ((snd (confirm_kill os (pid p) s))
                          \<lparr>last_refresh := os_now_input os - seconds (refresh_sec s)\<rparr>))
         else Inr s)"

text \<open>Arithmetic on a 32-bit \<^verbatim>\<open>int\<close> that can leave its range. Signed overflow is undefined
  in C++; the compiled program wraps around in two's complement, and so does the model.\<close>

definition wrap32 :: "int \<Rightarrow> int" where
  "wrap32 x = (x + 2147483648) mod 4294967296 - 2147483648"

text \<open>The key handler of \<^verbatim>\<open>main\<close> for every key but \<^verbatim>\<open>'q'\<close> and \<^verbatim>\<open>'Q'\<close>, which leave the
  loop (see \<open>loop_iter\<close>). The up key decrements a positive selection, which cannot
  overflow; the other three movement keys add or subtract without a check.\<close>

definition handle_input :: "OS \<Rightarrow> Key \<Rightarrow> State \<Rightarrow> fault + State" where
  "handle_input os ch s =
     (if ch = KEY_UP then
        (let s1 = (if selected s > 0 then s\<lparr>selected := selected s - 1\<rparr> else s)
         in Inr (if selected s1 < page_offset s1 then s1\<lparr>page_offset := selected s1\<rparr> else s1))
      else if ch = KEY_DOWN then Inr (s\<lparr>selected := wrap32 (selected s + 1)\<rparr>)
      else if ch = KEY_NPAGE then
        (let body_rows = wrap32 (os_body_maxy os - 3)
         in Inr (s\<lparr>selected := wrap32 (selected s + max 1 body_rows)\<rparr>))
      else if ch = KEY_PPAGE then
        (let body_rows = wrap32 (os_body_maxy os - 3);
             s1 = s\<lparr>selected := wrap32 (selected s - max 1 body_rows)\<rparr>
         in Inr (if selected s1 < 0 then s1\<lparr>selected := 0\<rparr> else s1))
      else if ch = KeyChar CHR ''s'' \<or> ch = KeyChar CHR ''S'' then
        Inr (s\<lparr>sort_mode :=
                 (if sort_mode s = SORT_CPU then SORT_MEM
                  else if sort_mode s = SORT_MEM then SORT_PID
                  else SORT_CPU)\<rparr>)
      else if ch = KeyChar CHR ''r'' \<or> ch = KeyChar CHR ''R'' then
        Inr (s\<lparr>last_refresh := os_now_input os - seconds (refresh_sec s)\<rparr>)
      else if ch = KeyChar CHR ''k'' \<or> ch = KeyChar CHR ''K'' then kill_selected os s
      else Inr s)"

text \<open>``refresh periodically''.\<close>

definition periodic_refresh :: "OS \<Rightarrow> State \<Rightarrow> State" where
  "periodic_refresh os s =
     (if os_now os - last_refresh s \<ge> seconds (refresh_sec s) then refresh_cycle os s else s)"

text \<open>One iteration of \<^verbatim>\<open>while (running)\<close>.\<close>

definition loop_iter :: "OS \<Rightarrow> State \<Rightarrow> fault + State" where
  "loop_iter os s =
     (case os_getch os of
        None \<Rightarrow> Inr (periodic_refresh os s)
      | Some ch \<Rightarrow>
          if ch = KeyChar CHR ''q'' \<or> ch = KeyChar CHR ''Q'' then Inr (s\<lparr>running := False\<rparr>)
          else (case handle_input os ch s of
                  Inl f \<Rightarrow> Inl f
                | Inr s1 \<Rightarrow> Inr (periodic_refresh os s1)))"

text \<open>\<^verbatim>\<open>while (running)\<close> over the answers of the platform, one per iteration: the state in
  which the loop has ended, or the state reached when the answers end.\<close>

fun main_loop :: "OS list \<Rightarrow> State \<Rightarrow> fault + State" where
  "main_loop [] s = Inr s"
| "main_loop (os # rest) s =
     (if \<not> running s then Inr s
      else (case loop_iter os s of
              Inl f \<Rightarrow> Inl f
            | Inr s1 \<Rightarrow> main_loop rest s1))"

subsection \<open>The command line\<close>

text \<open>\<^verbatim>\<open>std::stoi(str)\<close> as the C++ standard defines it through \<^verbatim>\<open>strtol(str, &end, 10)\<close>: white
  space is skipped, then an optional sign and the longest run of decimal digits are
  converted; what follows the digits is ignored. It throws \<^verbatim>\<open>invalid_argument\<close> when there is
  no digit to convert and \<^verbatim>\<open>out_of_range\<close> when the value is not an \<^verbatim>\<open>int\<close>.\<close>

datatype stoi_exn = invalid_argument | out_of_range

definition isspace_c :: "char \<Rightarrow> bool" where
  "isspace_c c = (c \<in> set [CHR '' '', CHR 0x09, CHR 0x0A, CHR 0x0B, CHR 0x0C, CHR 0x0D])"

definition isdigit_c :: "char \<Rightarrow> bool" where
  "isdigit_c c = (48 \<le> (of_char c :: nat) \<and> (of_char c :: nat) \<le> 57)"

definition digits_value :: "string \<Rightarrow> int" where
  "digits_value ds = foldl (\<lambda>acc c. 10 * acc + (int (of_char c) - 48)) 0 ds"

definition INT_MAX :: int where "INT_MAX = 2147483647"
definition INT_MIN :: int where "INT_MIN = - 2147483648"

definition stoi :: "string \<Rightarrow> stoi_exn + int" where
  "stoi str =
     (let s1 = dropWhile isspace_c str;
          neg = (s1 \<noteq> [] \<and> hd s1 = CHR ''-'');
          s2 = (if s1 \<noteq> [] \<and> (hd s1 = CHR ''-'' \<or> hd s1 = CHR ''+'') then tl s1 else s1);
          ds = takeWhile isdigit_c s2;
          v = (if neg then - digits_value ds else digits_value ds)
      in if ds = [] then Inl invalid_argument
         else if v < INT_MIN \<or> v > INT_MAX then Inl out_of_range
         else Inr v)"

text \<open>The first lines of \<^verbatim>\<open>main\<close>: \<open>argv\<close> is the argument vector, the program name first.\<close>

definition parse_refresh_sec :: "string list \<Rightarrow> int" where
  "parse_refresh_sec argv =
     (if length argv \<ge> 2
      then (case stoi (argv ! 1) of
              Inr v \<Rightarrow> (if v < 1 then 1 else v)
            | Inl e \<Rightarrow> 2)
      else 2)"

text \<open>The state of \<^verbatim>\<open>main\<close> when it enters the loop; \<open>boot\<close> holds the answers to the reads
  before the loop.\<close>

definition init_state :: "string list \<Rightarrow> OS \<Rightarrow> State" where
  "init_state argv boot =
     (let rs = parse_refresh_sec argv;
          flds = (case os_total_cpu boot of None \<Rightarrow> [] | Some fs \<Rightarrow> fs);
          mem = (case os_meminfo boot of None \<Rightarrow> (0, 0, 0) | Some m \<Rightarrow> m)
      in \<lparr>refresh_sec = rs,
          sort_mode = SORT_CPU,
          selected = 0,
          page_offset = 0,
          old_procs = [],
          cur_procs = [],
          old_cpu_fields = flds,
          cur_cpu_fields = [],
          old_total_cpu = total_cpu_time flds,
          mem_total_kb = fst mem,
          mem_free_kb = fst (snd mem),
          mem_available_kb = snd (snd mem),
          total_cpu_percent = 0,
          running = True,
          last_refresh = os_now boot - seconds rs,
          screen = None,
          dialogs = [],
          signals = []\<rparr>)"

text \<open>\<^verbatim>\<open>main\<close>: the exit code once the loop has ended; \<open>None\<close> when the loop is still
  running after the last answer.\<close>

definition main :: "string list \<Rightarrow> OS \<Rightarrow> OS list \<Rightarrow> (fault + int) option" where
  "main argv boot answers =
     (case main_loop answers (init_state argv boot) of
        Inl f \<Rightarrow> Some (Inl f)
      | Inr s \<Rightarrow> if running s then None else Some (Inr 0))"

subsection \<open>Example inputs\<close>

text \<open>What \<^verbatim>\<open>read_proc_times\<close> returns for a process with \<open>t\<close> ticks of user time and
  \<open>rss\<close> KB of resident memory, and the entry \<^verbatim>\<open>collect_processes\<close> makes of it when the
  memory total is 0.\<close>

definition ex_read :: "u64 \<Rightarrow> u64 \<Rightarrow> ProcRead" where
  "ex_read t rss =
     \<lparr>rd_times = \<lparr>utime = t, stime = 0\<rparr>, rd_rss_kb = rss, rd_comm = ''proc'', rd_uid = 0\<rparr>"

definition ex_proc :: "int \<Rightarrow> u64 \<Rightarrow> u64 \<Rightarrow> ProcInfo" where
  "ex_proc p t rss =
     \<lparr>pid = p, user = ''root'', name = ''proc'', cpu_percent = 0, mem_kb = rss,
      mem_percent = 0, ptimes = \<lparr>utime = t, stime = 0\<rparr>, total_time = t\<rparr>"

text \<open>A platform with 8,000,000 KB of memory, the given key, CPU fields, processes and
  clock, a body window of 20 lines, and a user who answers the dialog with \<^verbatim>\<open>t\<close>.\<close>

definition ex_os :: "Key option \<Rightarrow> u64 list \<Rightarrow> (int \<times> ProcRead) list \<Rightarrow> int \<Rightarrow> OS" where
  "ex_os key cpu procs now =
     \<lparr>os_getch = key, os_total_cpu = Some cpu, os_meminfo = Some (8000000, 0, 4000000),
      os_pids = map fst procs, os_proc = map_of procs, os_username = (\<lambda>u. ''root''),
      os_body_maxy = 20, os_now_input = now, os_now = now,
      os_dialog_key = KeyChar CHR ''t'', os_kill_ok = True\<rparr>"

text \<open>The state after the first refresh cycle of a run without arguments, on a platform
  with one process (pid 7, 50 ticks, 800,000 KB) whose CPU fields have not advanced since
  the program started; and the platform two seconds later, with all counters unchanged.\<close>

definition ex_first_cycle :: State where
  "ex_first_cycle =
     refresh_cycle (ex_os None [10, 0, 5, 100, 3] [(7, ex_read 50 800000)] 0)
       (init_state [''sysmon''] (ex_os None [10, 0, 5, 100, 3] [] 0))"

definition ex_os_same :: OS where
  "ex_os_same = ex_os None [10, 0, 5, 100, 3] [(7, ex_read 50 800000)] 2000000000"

text \<open>Three entries, two of them with the same CPU percentage.\<close>

definition ex_list :: "ProcInfo list" where
  "ex_list =
     [(ex_proc 3 0 0)\<lparr>cpu_percent := 10\<rparr>,
      (ex_proc 1 0 0)\<lparr>cpu_percent := 10\<rparr>,
      (ex_proc 2 0 0)\<lparr>cpu_percent := 50\<rparr>]"

text \<open>The platform two seconds after the first cycle of the example run: pid 7 has
  exited and pid 8 has appeared.\<close>

definition ex_os_gone :: OS where
  "ex_os_gone = ex_os None [20, 0, 5, 190, 3] [(8, ex_read 5 100)] 2000000000"

text \<open>The state in which a run without arguments enters the loop.\<close>

definition ex_init :: State where
  "ex_init = init_state [''sysmon''] (ex_os None [10, 0, 5, 100, 3] [] 0)"

text \<open>Two processes: pid 1 has used less CPU time and holds more memory than pid 2. And
  three iterations of the loop on them: the first refresh, the key \<^verbatim>\<open>s\<close> a tenth of a second
  later, the key \<^verbatim>\<open>k\<close> after another tenth.\<close>

definition ex_two :: "(int \<times> ProcRead) list" where
  "ex_two = [(1, ex_read 10 800000), (2, ex_read 50 80000)]"

definition ex_answers :: "OS list" where
  "ex_answers =
     [ex_os None [10, 0, 5, 100, 3] ex_two 0,
      ex_os (Some (KeyChar CHR ''s'')) [10, 0, 5, 100, 3] ex_two 100000000,
      ex_os (Some (KeyChar CHR ''k'')) [10, 0, 5, 100, 3] ex_two 200000000]"

text \<open>An iteration in which the user presses \<^verbatim>\<open>q\<close> or \<^verbatim>\<open>Q\<close>.\<close>

definition is_quit :: "OS \<Rightarrow> bool" where
  "is_quit os =
     (os_getch os = Some (KeyChar CHR ''q'') \<or> os_getch os = Some (KeyChar CHR ''Q''))"

text \<open>The first cycle could not open \<^verbatim>\<open>/proc/meminfo\<close>; and a start at which the memory
  total was read as 4,000,000 KB.\<close>

definition ex_os_nomem :: OS where
  "ex_os_nomem =
     (ex_os None [10, 0, 5, 100, 3] [(7, ex_read 50 800000)] 0)\<lparr>os_meminfo := None\<rparr>"

definition ex_boot_small :: OS where
  "ex_boot_small =
     (ex_os None [10, 0, 5, 100, 3] [] 0)\<lparr>os_meminfo := Some (4000000, 0, 2000000)\<rparr>"

section \<open>Properties\<close>

subsection \<open>Facts about the rate engine\<close>

lemma to_double_nonneg: "0 \<le> to_double x"
  unfolding to_double_def by (rule of_nat_0_le_iff)

lemma to_double_eq_0: "to_double x = 0 \<longleftrightarrow> x = 0"
  by (simp add: to_double_def unsigned_eq_0_iff)

lemma to_double_pos: "x \<noteq> 0 \<Longrightarrow> 0 < to_double x"
  using to_double_nonneg [of x] to_double_eq_0 [of x] by linarith

lemma map_of_update_cpu_percent:
  "map_of (update_cpu_percent oldp newp ot nt) k =
     map_option (\<lambda>p. snd (update_one oldp (if nt - ot = 0 then 1 else nt - ot) (k, p)))
       (map_of newp k)"
  unfolding update_cpu_percent_def Let_def
  by (induction newp) (auto simp: update_one_def)

lemma to_double_le_iff: "to_double x \<le> to_double y \<longleftrightarrow> x \<le> y"
  unfolding to_double_def word_le_nat_alt by (rule of_nat_le_iff)

lemma proc_delta_new: "map_of oldp k = None \<Longrightarrow> proc_delta oldp (k, npi) = total_time npi"
  by (simp add: proc_delta_def)

lemma proc_delta_backward:
  "map_of oldp k = Some opi \<Longrightarrow> total_time npi < total_time opi \<Longrightarrow>
   proc_delta oldp (k, npi) = 0"
  by (auto simp: proc_delta_def Let_def)

lemma pct_nonneg: "0 \<le> cpu_percent (snd (update_one oldp td kv))"
  by (simp add: update_one_def to_double_nonneg)

lemma pct_le_100:
  "td \<noteq> 0 \<Longrightarrow>
   cpu_percent (snd (update_one oldp td kv)) \<le> 100 \<longleftrightarrow> proc_delta oldp kv \<le> td"
  using to_double_pos [of td] to_double_le_iff [of "proc_delta oldp kv" td]
  by (simp add: update_one_def divide_le_eq)

subsection \<open>C1: the first observation of a pid\<close>

text \<open>
  C1, as amended. The claim says that a pid observed for the first time (absent from the
  previous map, or no previous map at all) is reported at 0 percent in that cycle.
  \<^verbatim>\<open>update_cpu_percent\<close> takes 0 as the previous tick count of such a pid, so the whole
  cumulative tick count is its delta: the percentage is
  \<open>100 * total_time / total_delta\<close>, and it is 0 exactly when the process has used no
  CPU time at all.
\<close>

theorem first_observation_cpu_percent:
  assumes "map_of oldp k = None" and "map_of newp k = Some npi"
  shows "map_option cpu_percent (map_of (update_cpu_percent oldp newp ot nt) k) =
           Some (100 * to_double (total_time npi) /
                 to_double (if nt - ot = 0 then 1 else nt - ot))
       \<and> (map_option cpu_percent (map_of (update_cpu_percent oldp newp ot nt) k) = Some 0
            \<longleftrightarrow> total_time npi = 0)"
  using assms
  by (auto simp: map_of_update_cpu_percent update_one_def proc_delta_new to_double_eq_0)

text \<open>The theorem at a new pid 7 with 50 ticks, while the system total advances by 100.\<close>

theorem first_observation_cpu_percent_witness:
  "map_of ([] :: procmap) 7 = None \<and>
   map_of [(7 :: int, ex_proc 7 50 0)] 7 = Some (ex_proc 7 50 0) \<and>
   map_option cpu_percent
     (map_of (update_cpu_percent [] [(7, ex_proc 7 50 0)] 1000 1100) 7) = Some 50 \<and>
   total_time (ex_proc 7 50 0) \<noteq> 0"
  using first_observation_cpu_percent [of "[]" 7 "[(7, ex_proc 7 50 0)]" "ex_proc 7 50 0" 1000 1100]
  by (simp add: ex_proc_def to_double_def)

text \<open>The claim as stated fails there: pid 7 is absent from the (empty) previous map and
  is reported at 50 percent.\<close>

theorem first_observation_not_zero:
  "map_of ([] :: procmap) 7 = None \<and>
   map_option cpu_percent
     (map_of (update_cpu_percent [] [(7, ex_proc 7 50 0)] 1000 1100) 7) = Some 50"
  by (simp add: update_cpu_percent_def update_one_def proc_delta_def ex_proc_def to_double_def)

subsection \<open>C3: backward counters and the range of the percentage\<close>

text \<open>
  C3, as amended. For a pid present in both maps whose tick count went backward the delta
  is 0 and so is its percentage (no unsigned underflow), and every percentage
  \<^verbatim>\<open>update_cpu_percent\<close> computes is at least 0. The code has no upper clamp: a percentage
  is at most 100 exactly when the delta of the process is at most \<^verbatim>\<open>total_delta\<close>.
\<close>

theorem cpu_percent_range:
  "(\<forall>kv \<in> set (update_cpu_percent oldp newp ot nt). 0 \<le> cpu_percent (snd kv)) \<and>
   (\<forall>k opi npi.
       map_of oldp k = Some opi \<and> map_of newp k = Some npi \<and> total_time npi < total_time opi
       \<longrightarrow> proc_delta oldp (k, npi) = 0 \<and>
           map_option cpu_percent (map_of (update_cpu_percent oldp newp ot nt) k) = Some 0) \<and>
   (\<forall>k npi p.
       map_of newp k = Some npi \<and> map_of (update_cpu_percent oldp newp ot nt) k = Some p
       \<longrightarrow> (cpu_percent p \<le> 100
            \<longleftrightarrow> proc_delta oldp (k, npi) \<le> (if nt - ot = 0 then 1 else nt - ot)))"
proof (intro conjI allI impI ballI)
  fix kv
  assume "kv \<in> set (update_cpu_percent oldp newp ot nt)"
  then show "0 \<le> cpu_percent (snd kv)"
    by (auto simp: update_cpu_percent_def Let_def pct_nonneg)
next
  fix k opi npi
  assume h: "map_of oldp k = Some opi \<and> map_of newp k = Some npi
               \<and> total_time npi < total_time opi"
  then show "proc_delta oldp (k, npi) = 0"
    by (simp add: proc_delta_backward)
  from h show "map_option cpu_percent (map_of (update_cpu_percent oldp newp ot nt) k) = Some 0"
    by (simp add: map_of_update_cpu_percent update_one_def proc_delta_backward to_double_def)
next
  fix k npi p
  assume h: "map_of newp k = Some npi \<and> map_of (update_cpu_percent oldp newp ot nt) k = Some p"
  then have "p = snd (update_one oldp (if nt - ot = 0 then 1 else nt - ot) (k, npi))"
    by (auto simp: map_of_update_cpu_percent)
  then show "cpu_percent p \<le> 100
             \<longleftrightarrow> proc_delta oldp (k, npi) \<le> (if nt - ot = 0 then 1 else nt - ot)"
    using pct_le_100 [of "if nt - ot = 0 then 1 else nt - ot" oldp "(k, npi)"] by simp
qed

text \<open>The theorem at pid 7, whose counter went from 100 back to 40.\<close>

theorem cpu_percent_range_witness:
  "map_of [(7 :: int, ex_proc 7 100 0)] 7 = Some (ex_proc 7 100 0) \<and>
   map_of [(7 :: int, ex_proc 7 40 0)] 7 = Some (ex_proc 7 40 0) \<and>
   total_time (ex_proc 7 40 0) < total_time (ex_proc 7 100 0) \<and>
   proc_delta [(7, ex_proc 7 100 0)] (7, ex_proc 7 40 0) = 0 \<and>
   map_option cpu_percent
     (map_of (update_cpu_percent [(7, ex_proc 7 100 0)] [(7, ex_proc 7 40 0)] 1000 1100) 7)
     = Some 0"
proof -
  have lt: "total_time (ex_proc 7 40 0) < total_time (ex_proc 7 100 0)"
    by (simp add: ex_proc_def)
  have "proc_delta [(7, ex_proc 7 100 0)] (7, ex_proc 7 40 0) = 0 \<and>
        map_option cpu_percent
          (map_of (update_cpu_percent [(7, ex_proc 7 100 0)] [(7, ex_proc 7 40 0)] 1000 1100) 7)
          = Some 0"
    using lt
      cpu_percent_range [of "[(7, ex_proc 7 100 0)]" "[(7, ex_proc 7 40 0)]" 1000 1100,
        THEN conjunct2, THEN conjunct1, rule_format, of 7 "ex_proc 7 100 0" "ex_proc 7 40 0"]
    by simp
  with lt show ?thesis by simp
qed

text \<open>The claim as stated fails in the first cycle after start, when the total has not
  advanced and \<^verbatim>\<open>total_delta\<close> is set to 1: a process with 5 ticks is reported at 500
  percent.\<close>

theorem cpu_percent_above_100:
  "map_option cpu_percent
     (map_of (update_cpu_percent [] [(7, ex_proc 7 5 0)] 1000 1000) 7) = Some 500 \<and>
   \<not> (500 \<le> (100 :: real))"
  by (simp add: update_cpu_percent_def update_one_def proc_delta_def ex_proc_def to_double_def)

subsection \<open>Facts about the snapshot reader, the sort and the refresh cycle\<close>

lemma mem_map_assign: "kv \<in> set (map_assign k v m) \<Longrightarrow> kv = (k, v) \<or> kv \<in> set m"
  by (induction m) (auto split: if_splits)

lemma foldl_collect_entries:
  "kv \<in> set (foldl (collect_one os mt) acc ks) \<Longrightarrow>
   kv \<in> set acc \<or>
   (fst kv \<in> set ks \<and>
    (\<exists>r. os_proc os (fst kv) = Some r \<and> snd kv = proc_entry os mt (fst kv) r))"
proof (induction ks arbitrary: acc)
  case Nil
  then show ?case by simp
next
  case (Cons k ks)
  from Cons.IH [OF Cons.prems [simplified]]
  show ?case
  proof
    assume "kv \<in> set (collect_one os mt acc k)"
    then show ?thesis
      by (auto simp: collect_one_def split: option.splits dest: mem_map_assign)
  next
    assume "fst kv \<in> set ks \<and>
      (\<exists>r. os_proc os (fst kv) = Some r \<and> snd kv = proc_entry os mt (fst kv) r)"
    then show ?thesis by auto
  qed
qed

lemma collect_processes_entries:
  "kv \<in> set (collect_processes os mt) \<Longrightarrow>
   fst kv \<in> set (os_pids os) \<and>
   (\<exists>r. os_proc os (fst kv) = Some r \<and> snd kv = proc_entry os mt (fst kv) r)"
  using foldl_collect_entries [of kv os mt "[]" "os_pids os"]
  by (simp add: collect_processes_def)

lemma update_cpu_percent_entries:
  "kv \<in> set (update_cpu_percent oldp newp ot nt) \<Longrightarrow>
   \<exists>kv0 \<in> set newp. kv = update_one oldp (if nt - ot = 0 then 1 else nt - ot) kv0"
  by (auto simp: update_cpu_percent_def Let_def)

lemma set_insert_sorted: "set (insert_sorted lt x xs) = insert x (set xs)"
  by (induction xs) auto

lemma set_std_sort: "set (std_sort lt xs) = set xs"
  by (induction xs) (auto simp: set_insert_sorted)

lemma set_sort_processes: "set (sort_processes xs m) = set xs"
  by (simp add: sort_processes_def set_std_sort)

lemma length_insert_sorted: "length (insert_sorted lt x xs) = Suc (length xs)"
  by (induction xs) auto

lemma length_std_sort: "length (std_sort lt xs) = length xs"
  by (induction xs) (auto simp: length_insert_sorted)

lemma length_sort_processes: "length (sort_processes xs m) = length xs"
  by (simp add: sort_processes_def length_std_sort)

lemma length_view_of: "length (view_of procs mt) = length procs"
  by (simp add: view_of_def)

lemma length_update_cpu_percent: "length (update_cpu_percent oldp newp ot nt) = length newp"
  by (simp add: update_cpu_percent_def Let_def)

lemma cpu_percent_view_of:
  "p \<in> set (view_of procs mt) \<Longrightarrow>
   \<exists>kv \<in> set procs. cpu_percent p = cpu_percent (snd kv) \<and> pid p = pid (snd kv)"
  by (force simp: view_of_def)

lemma refresh_cycle_fields:
  "cur_procs (refresh_cycle os s) =
     update_cpu_percent (old_procs s)
       (collect_processes os
          (fst (case os_meminfo os of
                  None \<Rightarrow> (mem_total_kb s, mem_free_kb s, mem_available_kb s)
                | Some m \<Rightarrow> m)))
       (old_total_cpu s)
       (total_cpu_time (case os_total_cpu os of None \<Rightarrow> cur_cpu_fields s | Some fs \<Rightarrow> fs))"
  "old_procs (refresh_cycle os s) = cur_procs (refresh_cycle os s)"
  "total_cpu_percent (refresh_cycle os s) =
     system_cpu_percent (old_cpu_fields s)
       (case os_total_cpu os of None \<Rightarrow> cur_cpu_fields s | Some fs \<Rightarrow> fs)
       (old_total_cpu s)
       (total_cpu_time (case os_total_cpu os of None \<Rightarrow> cur_cpu_fields s | Some fs \<Rightarrow> fs))"
  "mem_total_kb (refresh_cycle os s) =
     fst (case os_meminfo os of
            None \<Rightarrow> (mem_total_kb s, mem_free_kb s, mem_available_kb s)
          | Some m \<Rightarrow> m)"
  "screen (refresh_cycle os s) =
     Some (sort_processes
             (view_of (cur_procs (refresh_cycle os s)) (mem_total_kb (refresh_cycle os s)))
             (sort_mode s),
           selected (refresh_cycle os s), page_offset (refresh_cycle os s))"
  "selected (refresh_cycle os s) =
     clamp_selected (selected s) (int (length (cur_procs (refresh_cycle os s))))"
  "sort_mode (refresh_cycle os s) = sort_mode s"
  by (simp_all add: refresh_cycle_def Let_def length_sort_processes length_view_of)

lemma ex_first_cycle_old:
  "old_cpu_fields ex_first_cycle = [10, 0, 5, 100, 3]"
  "old_total_cpu ex_first_cycle = 118"
  "old_procs ex_first_cycle =
     [(7, (ex_proc 7 50 800000)\<lparr>cpu_percent := 5000, mem_percent := 10\<rparr>)]"
  by (simp_all add: ex_first_cycle_def ex_os_def ex_read_def ex_proc_def refresh_cycle_def
      init_state_def Let_def total_cpu_time_def collect_processes_def collect_one_def
      proc_entry_def update_cpu_percent_def update_one_def proc_delta_def to_double_def
      parse_refresh_sec_def)

subsection \<open>C2: equal cumulative counters\<close>

lemma system_cpu_percent_equal: "system_cpu_percent fs fs t t = 100"
  by (simp add: system_cpu_percent_def to_double_def)

lemma proc_delta_same:
  "map_of oldp k = Some opi \<Longrightarrow> total_time opi = total_time npi \<Longrightarrow>
   proc_delta oldp (k, npi) = 0"
  by (simp add: proc_delta_def)

lemma total_time_proc_entry:
  "total_time (proc_entry os mt k r) = utime (rd_times r) + stime (rd_times r)"
  by (simp add: proc_entry_def)

text \<open>\<^verbatim>\<open>main\<close> keeps \<^verbatim>\<open>old_total_cpu\<close> equal to the sum of \<^verbatim>\<open>old_cpu_fields\<close>: it holds when the
  loop is entered and after every refresh cycle, and no key changes either variable.\<close>

lemma total_cpu_invariant:
  "old_total_cpu (init_state argv boot) = total_cpu_time (old_cpu_fields (init_state argv boot))"
  "old_total_cpu (refresh_cycle os s) = total_cpu_time (old_cpu_fields (refresh_cycle os s))"
  by (simp_all add: init_state_def refresh_cycle_def Let_def)

lemma kill_selected_keeps_old:
  "\<exists>s1. kill_selected os s = Inr s1 \<and> old_total_cpu s1 = old_total_cpu s \<and>
        old_cpu_fields s1 = old_cpu_fields s"
  by (simp add: kill_selected_def vec_at_def Let_def confirm_kill_def)

lemma handle_input_keeps_old:
  "\<exists>s1. handle_input os ch s = Inr s1 \<and> old_total_cpu s1 = old_total_cpu s \<and>
        old_cpu_fields s1 = old_cpu_fields s"
  using kill_selected_keeps_old [of os s]
  by (simp add: handle_input_def Let_def)

text \<open>
  C2, as amended. In a refresh cycle whose cumulative counters all equal those of the
  previous cycle (the CPU fields read are the stored ones, and every process read has the
  tick count stored for its pid), \<^verbatim>\<open>total_delta\<close> is 0 and is replaced by 1. Every
  per-process \<open>cpu_percent\<close>, in the process map and in the rendered list, is then 0. The
  system-wide percentage is not: \<^verbatim>\<open>idle_delta\<close> is 0 as well, and
  \<open>100 * (1 - 0 / 1)\<close> is 100. The second hypothesis is the relation \<^verbatim>\<open>main\<close> keeps
  between \<^verbatim>\<open>old_total_cpu\<close> and \<^verbatim>\<open>old_cpu_fields\<close>.
\<close>

theorem equal_counters_percentages:
  assumes eq_sys: "os_total_cpu os = Some (old_cpu_fields s)"
    and inv: "old_total_cpu s = total_cpu_time (old_cpu_fields s)"
    and eq_proc: "\<forall>k r. k \<in> set (os_pids os) \<and> os_proc os k = Some r \<longrightarrow>
                    (\<exists>opi. map_of (old_procs s) k = Some opi \<and>
                           total_time opi = utime (rd_times r) + stime (rd_times r))"
  shows "total_cpu_percent (refresh_cycle os s) = 100 \<and>
         (\<forall>kv \<in> set (cur_procs (refresh_cycle os s)). cpu_percent (snd kv) = 0) \<and>
         (\<forall>pv sel off. screen (refresh_cycle os s) = Some (pv, sel, off) \<longrightarrow>
            (\<forall>p \<in> set pv. cpu_percent p = 0))"
proof -
  have sys: "total_cpu_percent (refresh_cycle os s) = 100"
    using eq_sys inv by (simp add: refresh_cycle_fields system_cpu_percent_equal)
  have procs: "cpu_percent (snd kv) = 0" if "kv \<in> set (cur_procs (refresh_cycle os s))" for kv
  proof -
    from that obtain kv0 td
      where kv0: "kv0 \<in> set (collect_processes os (mem_total_kb (refresh_cycle os s)))"
        and kv: "kv = update_one (old_procs s) td kv0"
      unfolding refresh_cycle_fields by (blast dest: update_cpu_percent_entries)
    from collect_processes_entries [OF kv0] obtain r where
      k: "fst kv0 \<in> set (os_pids os)" and r: "os_proc os (fst kv0) = Some r"
      and e: "snd kv0 = proc_entry os (mem_total_kb (refresh_cycle os s)) (fst kv0) r"
      by blast
    from eq_proc k r obtain opi where
      o: "map_of (old_procs s) (fst kv0) = Some opi"
      and t: "total_time opi = utime (rd_times r) + stime (rd_times r)"
      by blast
    have "proc_delta (old_procs s) (fst kv0, snd kv0) = 0"
      using o t e by (intro proc_delta_same) (simp_all add: total_time_proc_entry)
    then show ?thesis
      using kv by (simp add: update_one_def to_double_def)
  qed
  have view: "cpu_percent p = 0"
    if "screen (refresh_cycle os s) = Some (pv, sel, off)" and "p \<in> set pv" for pv sel off p
  proof -
    from that(1) have "pv = sort_processes (view_of (cur_procs (refresh_cycle os s))
        (mem_total_kb (refresh_cycle os s))) (sort_mode s)"
      by (simp add: refresh_cycle_fields(5))
    with that(2) have "p \<in> set (view_of (cur_procs (refresh_cycle os s))
        (mem_total_kb (refresh_cycle os s)))"
      by (simp add: set_sort_processes)
    then show ?thesis
      using procs by (auto dest!: cpu_percent_view_of)
  qed
  from sys procs view show ?thesis by blast
qed

text \<open>The theorem at the second cycle of the example run, in which nothing has advanced.\<close>

theorem equal_counters_percentages_witness:
  "os_total_cpu ex_os_same = Some (old_cpu_fields ex_first_cycle) \<and>
   old_total_cpu ex_first_cycle = total_cpu_time (old_cpu_fields ex_first_cycle) \<and>
   os_pids ex_os_same = [7] \<and>
   map_option rd_times (os_proc ex_os_same 7) = Some \<lparr>utime = 50, stime = 0\<rparr> \<and>
   map_option total_time (map_of (old_procs ex_first_cycle) 7) = Some 50 \<and>
   total_cpu_percent (refresh_cycle ex_os_same ex_first_cycle) = 100"
proof -
  have h1: "os_total_cpu ex_os_same = Some (old_cpu_fields ex_first_cycle)"
    by (simp add: ex_first_cycle_old ex_os_same_def ex_os_def)
  have h2: "old_total_cpu ex_first_cycle = total_cpu_time (old_cpu_fields ex_first_cycle)"
    by (simp add: ex_first_cycle_old total_cpu_time_def)
  have h3: "\<forall>k r. k \<in> set (os_pids ex_os_same) \<and> os_proc ex_os_same k = Some r \<longrightarrow>
              (\<exists>opi. map_of (old_procs ex_first_cycle) k = Some opi \<and>
                     total_time opi = utime (rd_times r) + stime (rd_times r))"
    by (auto simp add: ex_first_cycle_old ex_os_same_def ex_os_def ex_read_def ex_proc_def)
  from equal_counters_percentages [OF h1 h2 h3] h1 h2 show ?thesis
    by (simp add: ex_first_cycle_old ex_os_same_def ex_os_def ex_read_def ex_proc_def)
qed

text \<open>The claim as stated fails for the system-wide percentage: with the same five CPU
  fields in both snapshots it is 100, not 0.\<close>

theorem equal_counters_system_percent_100:
  "system_cpu_percent [10, 0, 5, 100, 3] [10, 0, 5, 100, 3]
     (total_cpu_time [10, 0, 5, 100, 3]) (total_cpu_time [10, 0, 5, 100, 3]) = 100"
  by (simp add: system_cpu_percent_def total_cpu_time_def idle_of_def to_double_def)

subsection \<open>C6: the sort comparator is a total order\<close>

lemma sort_comp_irrefl: "\<not> sort_comp m a a"
  by (cases m) simp_all

lemma sort_comp_asym: "sort_comp m a b \<Longrightarrow> \<not> sort_comp m b a"
  by (cases m) (auto split: if_splits)

lemma sort_comp_trans: "sort_comp m a b \<Longrightarrow> sort_comp m b c \<Longrightarrow> sort_comp m a c"
  by (cases m) (auto split: if_splits)

lemma sort_comp_negtrans: "sort_comp m a c \<Longrightarrow> sort_comp m a b \<or> sort_comp m b c"
  by (cases m) (auto split: if_splits)

lemma sort_comp_total: "pid a \<noteq> pid b \<Longrightarrow> sort_comp m a b \<or> sort_comp m b a"
  by (cases m) (auto split: if_splits)

lemma sort_comp_meaning:
  "sort_comp SORT_CPU a b \<longleftrightarrow>
     cpu_percent a > cpu_percent b \<or> (cpu_percent a = cpu_percent b \<and> pid a < pid b)"
  "sort_comp SORT_MEM a b \<longleftrightarrow>
     mem_percent a > mem_percent b \<or> (mem_percent a = mem_percent b \<and> pid a < pid b)"
  "sort_comp SORT_PID a b \<longleftrightarrow> pid a < pid b"
  by auto

lemma mset_insert_sorted: "mset (insert_sorted lt x xs) = add_mset x (mset xs)"
  by (induction xs) auto

lemma mset_std_sort: "mset (std_sort lt xs) = mset xs"
  by (induction xs) (auto simp: mset_insert_sorted)

lemma sorted_insert_sorted:
  assumes asym: "\<And>a b. lt a b \<Longrightarrow> \<not> lt b a"
    and neg: "\<And>a b c. lt a c \<Longrightarrow> lt a b \<or> lt b c"
  shows "is_sorted_by lt xs \<Longrightarrow> is_sorted_by lt (insert_sorted lt x xs)"
proof (induction xs)
  case Nil
  then show ?case by (simp add: is_sorted_by_def)
next
  case (Cons y ys)
  show ?case
  proof (cases "lt y x")
    case True
    with Cons asym [of y x] show ?thesis
      by (auto simp: is_sorted_by_def set_insert_sorted)
  next
    case False
    have "\<not> lt z x" if "z \<in> set ys" for z
    proof
      assume "lt z x"
      with neg [of z x y] False have "lt z y" by blast
      with Cons.prems that show False by (auto simp: is_sorted_by_def)
    qed
    with False Cons.prems show ?thesis
      by (auto simp: is_sorted_by_def)
  qed
qed

lemma sorted_std_sort:
  assumes asym: "\<And>a b. lt a b \<Longrightarrow> \<not> lt b a"
    and neg: "\<And>a b c. lt a c \<Longrightarrow> lt a b \<or> lt b c"
  shows "is_sorted_by lt (std_sort lt xs)"
proof (induction xs)
  case Nil
  show ?case by (simp add: is_sorted_by_def)
next
  case (Cons x xs)
  then show ?case
    using sorted_insert_sorted [of lt, OF asym neg] by simp
qed

lemma insert_sorted_front: "\<forall>y \<in> set xs. \<not> lt y x \<Longrightarrow> insert_sorted lt x xs = x # xs"
  by (cases xs) simp_all

lemma std_sort_sorted_id: "is_sorted_by lt xs \<Longrightarrow> std_sort lt xs = xs"
  by (induction xs) (auto simp: is_sorted_by_def insert_sorted_front)

lemma sorted_perm_unique:
  assumes "is_sorted_by lt xs" and "is_sorted_by lt ys" and "mset xs = mset ys"
    and "\<And>a b. a \<in> set xs \<Longrightarrow> b \<in> set xs \<Longrightarrow> \<not> lt a b \<Longrightarrow> \<not> lt b a \<Longrightarrow> a = b"
  shows "xs = ys"
  using assms
proof (induction xs arbitrary: ys)
  case Nil
  then show ?case by simp
next
  case (Cons x xs)
  from Cons.prems(3) obtain y ys' where ys: "ys = y # ys'"
    by (cases ys) auto
  have sets: "set (x # xs) = set (y # ys')"
    using Cons.prems(3) ys by (metis set_mset_mset)
  have xy: "x = y"
  proof (rule ccontr)
    assume ne: "x \<noteq> y"
    with sets have mem: "x \<in> set ys'" "y \<in> set xs" by auto
    with Cons.prems(1,2) ys have "\<not> lt x y" and "\<not> lt y x"
      by (auto simp: is_sorted_by_def)
    with Cons.prems(4) [of x y] mem(2) have "x = y" by simp
    with ne show False by simp
  qed
  with Cons.prems ys have "xs = ys'"
    by (intro Cons.IH) (auto simp: is_sorted_by_def)
  with xy ys show ?case by simp
qed

lemma strictly_sorted:
  "is_sorted_by (sort_comp m) xs \<Longrightarrow> distinct (map pid xs) \<Longrightarrow> sorted_wrt (sort_comp m) xs"
proof (induction xs)
  case Nil
  show ?case by simp
next
  case (Cons x xs)
  have "sort_comp m x y" if "y \<in> set xs" for y
  proof -
    from that Cons.prems have "pid x \<noteq> pid y" and "\<not> sort_comp m y x"
      by (auto simp: is_sorted_by_def)
    with sort_comp_total [of x y m] show ?thesis by blast
  qed
  with Cons show ?case by (simp add: is_sorted_by_def)
qed

lemma sort_processes_sorted: "is_sorted_by (sort_comp m) (sort_processes xs m)"
  unfolding sort_processes_def
  by (rule sorted_std_sort) (auto dest: sort_comp_asym sort_comp_negtrans)

lemma mset_sort_processes: "mset (sort_processes xs m) = mset xs"
  by (simp add: sort_processes_def mset_std_sort)

lemma sort_comp_antisym_on:
  assumes "distinct (map pid xs)" "a \<in> set xs" "b \<in> set xs"
    "\<not> sort_comp m a b" "\<not> sort_comp m b a"
  shows "a = b"
proof -
  from assms(4,5) sort_comp_total [of a b m] have "pid a = pid b" by blast
  with assms(1-3) show ?thesis by (auto simp: distinct_map dest: inj_onD)
qed

lemma sort_processes_unique:
  assumes d: "distinct (map pid xs)" and m: "mset ys = mset xs"
    and s: "is_sorted_by (sort_comp m) ys"
  shows "ys = sort_processes xs m"
proof (rule sorted_perm_unique [OF s sort_processes_sorted])
  show "mset ys = mset (sort_processes xs m)" using m by (simp add: mset_sort_processes)
next
  fix a b assume "a \<in> set ys" "b \<in> set ys" "\<not> sort_comp m a b" "\<not> sort_comp m b a"
  moreover have "set ys = set xs" using m by (metis set_mset_mset)
  ultimately show "a = b" using sort_comp_antisym_on [OF d] by blast
qed

text \<open>
  C6. For a list of entries with pairwise distinct pids and any sort mode, the comparator
  of \<^verbatim>\<open>sort_processes\<close> is a strict total order on the entries: irreflexive, asymmetric
  and transitive, and any two different entries of the list are comparable. It orders by
  descending \<open>cpu_percent\<close> (CPU) or \<open>mem_percent\<close> (MEM) with ties broken by ascending pid,
  and by ascending pid (PID). So the sorted vector is a permutation of the input in strict
  comparator order (strictly ascending pids in PID mode), sorting a sorted vector leaves it
  unchanged, and the result is determined: every sorted permutation of the input is the
  same vector, also when the input comes in another order.
\<close>

theorem sort_processes_total_order:
  assumes d: "distinct (map pid xs)"
  shows
    "(\<forall>a b c. \<not> sort_comp m a a \<and> (sort_comp m a b \<longrightarrow> \<not> sort_comp m b a) \<and>
              (sort_comp m a b \<and> sort_comp m b c \<longrightarrow> sort_comp m a c)) \<and>
     (\<forall>a \<in> set xs. \<forall>b \<in> set xs. a \<noteq> b \<longrightarrow> sort_comp m a b \<or> sort_comp m b a) \<and>
     (\<forall>a b.
        (sort_comp SORT_CPU a b \<longleftrightarrow>
           cpu_percent a > cpu_percent b \<or> (cpu_percent a = cpu_percent b \<and> pid a < pid b)) \<and>
        (sort_comp SORT_MEM a b \<longleftrightarrow>
           mem_percent a > mem_percent b \<or> (mem_percent a = mem_percent b \<and> pid a < pid b)) \<and>
        (sort_comp SORT_PID a b \<longleftrightarrow> pid a < pid b)) \<and>
     mset (sort_processes xs m) = mset xs \<and>
     sorted_wrt (sort_comp m) (sort_processes xs m) \<and>
     sorted_wrt (\<lambda>a b. pid a < pid b) (sort_processes xs SORT_PID) \<and>
     sort_processes (sort_processes xs m) m = sort_processes xs m \<and>
     (\<forall>ys. mset ys = mset xs \<and> is_sorted_by (sort_comp m) ys \<longrightarrow> ys = sort_processes xs m) \<and>
     (\<forall>xs'. mset xs' = mset xs \<longrightarrow> sort_processes xs' m = sort_processes xs m)"
proof -
  have order: "\<forall>a b c. \<not> sort_comp m a a \<and> (sort_comp m a b \<longrightarrow> \<not> sort_comp m b a) \<and>
              (sort_comp m a b \<and> sort_comp m b c \<longrightarrow> sort_comp m a c)"
    by (intro allI conjI impI) (auto simp: sort_comp_irrefl dest: sort_comp_asym sort_comp_trans)
  have total: "\<forall>a \<in> set xs. \<forall>b \<in> set xs. a \<noteq> b \<longrightarrow> sort_comp m a b \<or> sort_comp m b a"
  proof (intro ballI impI)
    fix a b assume "a \<in> set xs" "b \<in> set xs" "a \<noteq> b"
    with sort_comp_antisym_on [OF d, of a b m] show "sort_comp m a b \<or> sort_comp m b a"
      by blast
  qed
  have meaning: "\<forall>a b.
        (sort_comp SORT_CPU a b \<longleftrightarrow>
           cpu_percent a > cpu_percent b \<or> (cpu_percent a = cpu_percent b \<and> pid a < pid b)) \<and>
        (sort_comp SORT_MEM a b \<longleftrightarrow>
           mem_percent a > mem_percent b \<or> (mem_percent a = mem_percent b \<and> pid a < pid b)) \<and>
        (sort_comp SORT_PID a b \<longleftrightarrow> pid a < pid b)"
    by (intro allI conjI) (rule sort_comp_meaning)+
  have dm: "distinct (map pid (sort_processes xs mode))" for mode
  proof -
    have "mset (map pid (sort_processes xs mode)) = mset (map pid xs)"
      by (simp add: mset_sort_processes)
    from mset_eq_imp_distinct_iff [OF this] d show ?thesis by simp
  qed
  have strict: "sorted_wrt (sort_comp mode) (sort_processes xs mode)" for mode
    using strictly_sorted [OF sort_processes_sorted dm] .
  have pid_strict: "sorted_wrt (\<lambda>a b. pid a < pid b) (sort_processes xs SORT_PID)"
    using strict [of SORT_PID] by (simp add: sorted_wrt_iff_nth_less)
  have idem: "sort_processes (sort_processes xs m) m = sort_processes xs m"
    using std_sort_sorted_id [OF sort_processes_sorted [of m xs]]
    by (simp add: sort_processes_def)
  have uniq: "\<forall>ys. mset ys = mset xs \<and> is_sorted_by (sort_comp m) ys \<longrightarrow> ys = sort_processes xs m"
  proof (intro allI impI)
    fix ys assume "mset ys = mset xs \<and> is_sorted_by (sort_comp m) ys"
    then show "ys = sort_processes xs m"
      using sort_processes_unique [OF d, of ys m] by simp
  qed
  have perm: "\<forall>xs'. mset xs' = mset xs \<longrightarrow> sort_processes xs' m = sort_processes xs m"
  proof (intro allI impI)
    fix xs' :: "ProcInfo list" assume "mset xs' = mset xs"
    then have "mset (sort_processes xs' m) = mset xs"
      by (simp add: mset_sort_processes)
    from sort_processes_unique [OF d this sort_processes_sorted]
    show "sort_processes xs' m = sort_processes xs m" .
  qed
  have perm_ok: "mset (sort_processes xs m) = mset xs"
    by (rule mset_sort_processes)
  from order total meaning perm_ok strict [of m] pid_strict idem uniq perm show ?thesis
    by (intro conjI)
qed

text \<open>The theorem at the three entries of \<open>ex_list\<close>.\<close>

theorem sort_processes_total_order_witness:
  "distinct (map pid ex_list) \<and>
   map pid (sort_processes ex_list SORT_CPU) = [2, 1, 3] \<and>
   map pid (sort_processes ex_list SORT_PID) = [1, 2, 3] \<and>
   sort_processes (sort_processes ex_list SORT_CPU) SORT_CPU = sort_processes ex_list SORT_CPU"
  using sort_processes_total_order [of ex_list SORT_CPU]
  by (simp add: ex_list_def ex_proc_def sort_processes_def)

subsection \<open>Entries of the process map and of the rendered list\<close>

lemma cur_procs_entries:
  assumes "kv \<in> set (cur_procs (refresh_cycle os s))"
  shows "fst kv \<in> set (os_pids os) \<and>
         (\<exists>r c. os_proc os (fst kv) = Some r \<and>
                snd kv = (proc_entry os (mem_total_kb (refresh_cycle os s)) (fst kv) r)
                           \<lparr>cpu_percent := c\<rparr>)"
proof -
  from assms obtain kv0 td
    where kv0: "kv0 \<in> set (collect_processes os (mem_total_kb (refresh_cycle os s)))"
      and kv: "kv = update_one (old_procs s) td kv0"
    unfolding refresh_cycle_fields by (blast dest: update_cpu_percent_entries)
  from collect_processes_entries [OF kv0] kv show ?thesis
    by (auto simp: update_one_def)
qed

lemma screen_entries:
  assumes "screen (refresh_cycle os s) = Some (pv, sel, off)" and "p \<in> set pv"
  shows "\<exists>kv \<in> set (cur_procs (refresh_cycle os s)).
           p = (snd kv)\<lparr>mem_percent :=
                 (if mem_total_kb (refresh_cycle os s) > 0
                  then 100 * to_double (mem_kb (snd kv)) / to_double (mem_total_kb (refresh_cycle os s))
                  else 0)\<rparr>"
proof -
  from assms(1) have "pv = sort_processes (view_of (cur_procs (refresh_cycle os s))
      (mem_total_kb (refresh_cycle os s))) (sort_mode s)"
    by (simp add: refresh_cycle_fields(5))
  with assms(2) have "p \<in> set (view_of (cur_procs (refresh_cycle os s))
      (mem_total_kb (refresh_cycle os s)))"
    by (simp add: set_sort_processes)
  then obtain kv where "kv \<in> set (cur_procs (refresh_cycle os s))"
    and "p = (\<lambda>p. p\<lparr>mem_percent :=
                 (if mem_total_kb (refresh_cycle os s) > 0
                  then 100 * to_double (mem_kb p) / to_double (mem_total_kb (refresh_cycle os s))
                  else 0)\<rparr>) (snd kv)"
    unfolding view_of_def by auto
  then show ?thesis by (intro bexI [of _ kv]) simp_all
qed

lemmas ex_eval = ex_os_def ex_read_def ex_proc_def refresh_cycle_def
      init_state_def Let_def total_cpu_time_def collect_processes_def collect_one_def
      proc_entry_def update_cpu_percent_def update_one_def proc_delta_def to_double_def
      parse_refresh_sec_def system_cpu_percent_def idle_of_def view_of_def sort_processes_def
      clamp_selected_def adjust_page_offset_def

lemma ex_first_cycle_screen:
  "screen ex_first_cycle =
     Some ([(ex_proc 7 50 800000)\<lparr>cpu_percent := 5000, mem_percent := 10\<rparr>], 0, 0)"
  "mem_total_kb ex_first_cycle = 8000000"
  by (simp_all add: ex_first_cycle_def ex_eval)

subsection \<open>C7: a pid that has exited\<close>

text \<open>
  C7. A pid that is in the previous process map and absent from the current snapshot (the
  platform no longer lists it, or \<^verbatim>\<open>read_proc_times\<close> fails for it) is, after the refresh
  cycle, in neither the current process map nor the stored previous map (which the cycle
  replaces by the current one), and no entry of the rendered list has that pid.
\<close>

theorem exited_pid_dropped:
  assumes prev: "k \<in> fst ` set (old_procs s)"
    and gone: "k \<notin> set (os_pids os) \<or> os_proc os k = None"
  shows "k \<notin> fst ` set (cur_procs (refresh_cycle os s)) \<and>
         k \<notin> fst ` set (old_procs (refresh_cycle os s)) \<and>
         map_of (cur_procs (refresh_cycle os s)) k = None \<and>
         map_of (old_procs (refresh_cycle os s)) k = None \<and>
         (\<forall>pv sel off. screen (refresh_cycle os s) = Some (pv, sel, off) \<longrightarrow> k \<notin> pid ` set pv)"
proof -
  have cur: "k \<notin> fst ` set (cur_procs (refresh_cycle os s))"
  proof
    assume "k \<in> fst ` set (cur_procs (refresh_cycle os s))"
    then obtain kv where "kv \<in> set (cur_procs (refresh_cycle os s))" and "fst kv = k" by auto
    with cur_procs_entries [of kv os s] gone show False by auto
  qed
  then have m: "map_of (cur_procs (refresh_cycle os s)) k = None"
    by (simp add: map_of_eq_None_iff)
  have view: "k \<notin> pid ` set pv" if "screen (refresh_cycle os s) = Some (pv, sel, off)" for pv sel off
  proof
    assume "k \<in> pid ` set pv"
    then obtain p where p: "p \<in> set pv" "pid p = k" by auto
    from screen_entries [OF that p(1)] obtain kv where
      kv: "kv \<in> set (cur_procs (refresh_cycle os s))" and pk: "pid p = pid (snd kv)" by auto
    from cur_procs_entries [OF kv] have "pid (snd kv) = fst kv"
      by (auto simp: proc_entry_def)
    with kv pk p(2) cur show False by force
  qed
  from cur m view show ?thesis by (simp add: refresh_cycle_fields(2))
qed

text \<open>The theorem at the example run, where pid 7 exits after the first cycle.\<close>

theorem exited_pid_dropped_witness:
  "7 \<in> fst ` set (old_procs ex_first_cycle) \<and>
   7 \<notin> set (os_pids ex_os_gone) \<and>
   map_of (cur_procs (refresh_cycle ex_os_gone ex_first_cycle)) 7 = None \<and>
   map_of (old_procs (refresh_cycle ex_os_gone ex_first_cycle)) 7 = None \<and>
   map fst (cur_procs (refresh_cycle ex_os_gone ex_first_cycle)) = [8]"
proof -
  have h1: "7 \<in> fst ` set (old_procs ex_first_cycle)"
    by (simp add: ex_first_cycle_old)
  have h2: "7 \<notin> set (os_pids ex_os_gone)"
    by (simp add: ex_os_gone_def ex_os_def)
  have e: "map fst (cur_procs (refresh_cycle ex_os_gone ex_first_cycle)) = [8]"
    by (simp add: refresh_cycle_fields(1) ex_os_gone_def ex_os_def ex_read_def collect_processes_def collect_one_def
       update_cpu_percent_def update_one_def Let_def)
  from exited_pid_dropped [OF h1 disjI1 [OF h2]] h1 h2 e show ?thesis by simp
qed

subsection \<open>C8: the memory percentage\<close>

lemma mem_fields_update_one:
  "fst (update_one oldp td kv) = fst kv"
  "pid (snd (update_one oldp td kv)) = pid (snd kv)"
  "mem_kb (snd (update_one oldp td kv)) = mem_kb (snd kv)"
  "mem_percent (snd (update_one oldp td kv)) = mem_percent (snd kv)"
  by (simp_all add: update_one_def)

lemma mem_fields_cur_procs:
  "map (\<lambda>kv. (fst kv, mem_kb (snd kv), mem_percent (snd kv))) (cur_procs (refresh_cycle os s)) =
   map (\<lambda>kv. (fst kv, mem_kb (snd kv), mem_percent (snd kv)))
     (collect_processes os (mem_total_kb (refresh_cycle os s)))"
  by (simp add: refresh_cycle_fields(1,4) update_cpu_percent_def Let_def mem_fields_update_one)

lemma mem_fields_view_of:
  "map (\<lambda>p. (pid p, mem_kb p, mem_percent p)) (view_of (update_cpu_percent oldp newp ot nt) mt) =
   map (\<lambda>p. (pid p, mem_kb p, mem_percent p)) (view_of newp mt)"
  by (simp add: view_of_def update_cpu_percent_def Let_def mem_fields_update_one)

lemma mem_fields_screen:
  assumes "screen (refresh_cycle os s) = Some (pv, sel, off)"
  shows "mset (map (\<lambda>p. (pid p, mem_kb p, mem_percent p)) pv) =
         mset (map (\<lambda>p. (pid p, mem_kb p, mem_percent p))
           (view_of (collect_processes os (mem_total_kb (refresh_cycle os s)))
              (mem_total_kb (refresh_cycle os s))))"
proof -
  from assms have pv: "pv = sort_processes (view_of (cur_procs (refresh_cycle os s))
      (mem_total_kb (refresh_cycle os s))) (sort_mode s)"
    by (simp add: refresh_cycle_fields(5))
  have "mset (map (\<lambda>p. (pid p, mem_kb p, mem_percent p)) pv) =
        mset (map (\<lambda>p. (pid p, mem_kb p, mem_percent p))
          (view_of (cur_procs (refresh_cycle os s)) (mem_total_kb (refresh_cycle os s))))"
    unfolding pv by (simp add: mset_sort_processes)
  also have "view_of (cur_procs (refresh_cycle os s)) (mem_total_kb (refresh_cycle os s)) =
      view_of (update_cpu_percent (old_procs s)
        (collect_processes os (mem_total_kb (refresh_cycle os s))) (old_total_cpu s)
        (total_cpu_time (case os_total_cpu os of None \<Rightarrow> cur_cpu_fields s | Some fs \<Rightarrow> fs)))
        (mem_total_kb (refresh_cycle os s))"
    by (simp add: refresh_cycle_fields(1,4))
  finally show ?thesis by (simp only: mem_fields_view_of)
qed

lemma mem_total_same:
  "os_meminfo os \<noteq> None \<or> mem_total_kb s2 = mem_total_kb s \<Longrightarrow>
   mem_total_kb (refresh_cycle os s2) = mem_total_kb (refresh_cycle os s)"
  by (cases "os_meminfo os") (simp_all add: refresh_cycle_fields(4))

text \<open>
  C8, as amended. In every refresh cycle with \<open>mem_total_kb > 0\<close>, every entry of the
  rendered list and of the process map has \<open>mem_percent = 100 * mem_kb / mem_total_kb\<close>,
  where \<open>mem_kb\<close> is the resident memory read for that pid in this cycle. When
  \<^verbatim>\<open>/proc/meminfo\<close> can be read in this cycle, \<open>mem_total_kb\<close> is the total read in this cycle,
  and the memory percentages are the same whatever the state before the cycle was:
  nothing of the previous snapshot enters. When it cannot be read, \<open>mem_total_kb\<close> is the
  total stored by an earlier read, and the percentages are those of any other prior state
  with the same stored total. With 800,000 KB resident and a total of 8,000,000 KB the
  percentage is 10, in \<^verbatim>\<open>collect_processes\<close> and in the recomputation for the view.
\<close>

theorem mem_percent_current_snapshot:
  "(\<forall>pv sel off p.
      screen (refresh_cycle os s) = Some (pv, sel, off) \<and> p \<in> set pv \<and>
      mem_total_kb (refresh_cycle os s) > 0 \<longrightarrow>
        mem_percent p = 100 * to_double (mem_kb p) / to_double (mem_total_kb (refresh_cycle os s)) \<and>
        (\<exists>r. os_proc os (pid p) = Some r \<and> mem_kb p = rd_rss_kb r)) \<and>
   (\<forall>kv. kv \<in> set (cur_procs (refresh_cycle os s)) \<and> mem_total_kb (refresh_cycle os s) > 0 \<longrightarrow>
        mem_percent (snd kv) =
          100 * to_double (mem_kb (snd kv)) / to_double (mem_total_kb (refresh_cycle os s)) \<and>
        (\<exists>r. os_proc os (fst kv) = Some r \<and> mem_kb (snd kv) = rd_rss_kb r)) \<and>
   mem_total_kb (refresh_cycle os s) =
     (case os_meminfo os of None \<Rightarrow> mem_total_kb s | Some m \<Rightarrow> fst m) \<and>
   (\<forall>s2. os_meminfo os \<noteq> None \<or> mem_total_kb s2 = mem_total_kb s \<longrightarrow>
      map (\<lambda>kv. (fst kv, mem_kb (snd kv), mem_percent (snd kv)))
        (cur_procs (refresh_cycle os s2)) =
      map (\<lambda>kv. (fst kv, mem_kb (snd kv), mem_percent (snd kv)))
        (cur_procs (refresh_cycle os s)) \<and>
      (\<forall>pv sel off pv2 sel2 off2.
         screen (refresh_cycle os s) = Some (pv, sel, off) \<and>
         screen (refresh_cycle os s2) = Some (pv2, sel2, off2) \<longrightarrow>
           mset (map (\<lambda>p. (pid p, mem_kb p, mem_percent p)) pv2) =
           mset (map (\<lambda>p. (pid p, mem_kb p, mem_percent p)) pv))) \<and>
   mem_percent (proc_entry os 8000000 k (r\<lparr>rd_rss_kb := 800000\<rparr>)) = 10 \<and>
   map mem_percent (view_of [(k, q\<lparr>mem_kb := 800000\<rparr>)] 8000000) = [10]"
proof -
  have view: "mem_percent p =
        100 * to_double (mem_kb p) / to_double (mem_total_kb (refresh_cycle os s)) \<and>
      (\<exists>r. os_proc os (pid p) = Some r \<and> mem_kb p = rd_rss_kb r)"
    if h: "screen (refresh_cycle os s) = Some (pv, sel, off) \<and> p \<in> set pv \<and>
      mem_total_kb (refresh_cycle os s) > 0" for pv sel off p
  proof -
    from h obtain kv where kv: "kv \<in> set (cur_procs (refresh_cycle os s))"
      and p: "p = (snd kv)\<lparr>mem_percent :=
          100 * to_double (mem_kb (snd kv)) / to_double (mem_total_kb (refresh_cycle os s))\<rparr>"
      using screen_entries [of os s pv sel off p] by auto
    from p have "mem_percent p =
        100 * to_double (mem_kb p) / to_double (mem_total_kb (refresh_cycle os s))"
      by simp
    moreover from cur_procs_entries [OF kv] p
    have "\<exists>r. os_proc os (pid p) = Some r \<and> mem_kb p = rd_rss_kb r"
      by (auto simp: proc_entry_def)
    ultimately show ?thesis by simp
  qed
  have procs: "mem_percent (snd kv) =
        100 * to_double (mem_kb (snd kv)) / to_double (mem_total_kb (refresh_cycle os s)) \<and>
      (\<exists>r. os_proc os (fst kv) = Some r \<and> mem_kb (snd kv) = rd_rss_kb r)"
    if h: "kv \<in> set (cur_procs (refresh_cycle os s)) \<and> 0 < mem_total_kb (refresh_cycle os s)"
    for kv
    using h cur_procs_entries [of kv os s] by (auto simp: proc_entry_def)
  have total: "mem_total_kb (refresh_cycle os s) =
     (case os_meminfo os of None \<Rightarrow> mem_total_kb s | Some m \<Rightarrow> fst m)"
    by (simp add: refresh_cycle_fields(4) split: option.splits)
  have indep: "map (\<lambda>kv. (fst kv, mem_kb (snd kv), mem_percent (snd kv)))
        (cur_procs (refresh_cycle os s2)) =
      map (\<lambda>kv. (fst kv, mem_kb (snd kv), mem_percent (snd kv)))
        (cur_procs (refresh_cycle os s)) \<and>
      (\<forall>pv sel off pv2 sel2 off2.
         screen (refresh_cycle os s) = Some (pv, sel, off) \<and>
         screen (refresh_cycle os s2) = Some (pv2, sel2, off2) \<longrightarrow>
           mset (map (\<lambda>p. (pid p, mem_kb p, mem_percent p)) pv2) =
           mset (map (\<lambda>p. (pid p, mem_kb p, mem_percent p)) pv))"
    if h: "os_meminfo os \<noteq> None \<or> mem_total_kb s2 = mem_total_kb s" for s2
  proof -
    note mt = mem_total_same [OF h]
    have "map (\<lambda>kv. (fst kv, mem_kb (snd kv), mem_percent (snd kv)))
        (cur_procs (refresh_cycle os s2)) =
      map (\<lambda>kv. (fst kv, mem_kb (snd kv), mem_percent (snd kv)))
        (cur_procs (refresh_cycle os s))"
      by (simp only: mem_fields_cur_procs mt)
    moreover have "mset (map (\<lambda>p. (pid p, mem_kb p, mem_percent p)) pv2) =
           mset (map (\<lambda>p. (pid p, mem_kb p, mem_percent p)) pv)"
      if "screen (refresh_cycle os s) = Some (pv, sel, off)"
        "screen (refresh_cycle os s2) = Some (pv2, sel2, off2)"
      for pv sel off pv2 sel2 off2
      using mem_fields_screen [OF that(1)] mem_fields_screen [OF that(2)]
      by (simp only: mt)
    ultimately show ?thesis by blast
  qed
  have ex1: "mem_percent (proc_entry os 8000000 k (r\<lparr>rd_rss_kb := 800000\<rparr>)) = 10"
    by (simp add: proc_entry_def to_double_def)
  have ex2: "map mem_percent (view_of [(k, q\<lparr>mem_kb := 800000\<rparr>)] 8000000) = [10]"
    by (simp add: view_of_def to_double_def)
  from view procs total indep ex1 ex2 show ?thesis by blast
qed

text \<open>The theorem at the first cycle of the example run, after a start with a memory
  total of 8,000,000 KB and after one with 4,000,000 KB.\<close>

theorem mem_percent_current_snapshot_witness:
  "screen (refresh_cycle (ex_os None [10, 0, 5, 100, 3] [(7, ex_read 50 800000)] 0) ex_init) =
     Some ([(ex_proc 7 50 800000)\<lparr>cpu_percent := 5000, mem_percent := 10\<rparr>], 0, 0) \<and>
   mem_total_kb (refresh_cycle (ex_os None [10, 0, 5, 100, 3] [(7, ex_read 50 800000)] 0) ex_init)
     = 8000000 \<and>
   mem_percent ((ex_proc 7 50 800000)\<lparr>cpu_percent := 5000, mem_percent := 10\<rparr>) =
     100 * to_double 800000 / to_double 8000000 \<and>
   os_meminfo (ex_os None [10, 0, 5, 100, 3] [(7, ex_read 50 800000)] 0) =
     Some (8000000, 0, 4000000) \<and>
   mem_total_kb (init_state [''sysmon''] ex_boot_small) = 4000000 \<and>
   map (\<lambda>kv. (fst kv, mem_kb (snd kv), mem_percent (snd kv)))
     (cur_procs (refresh_cycle (ex_os None [10, 0, 5, 100, 3] [(7, ex_read 50 800000)] 0)
        (init_state [''sysmon''] ex_boot_small))) = [(7, 800000, 10)]"
proof -
  let ?os = "ex_os None [10, 0, 5, 100, 3] [(7, ex_read 50 800000)] 0"
  let ?p = "(ex_proc 7 50 800000)\<lparr>cpu_percent := 5000, mem_percent := 10\<rparr>"
  have scr: "screen (refresh_cycle ?os ex_init) = Some ([?p], 0, 0)"
    and mt: "mem_total_kb (refresh_cycle ?os ex_init) = 8000000"
    using ex_first_cycle_screen by (simp_all add: ex_first_cycle_def ex_init_def)
  have "mem_percent ?p =
      100 * to_double (mem_kb ?p) / to_double (mem_total_kb (refresh_cycle ?os ex_init))"
    using mem_percent_current_snapshot [of ?os ex_init, THEN conjunct1, rule_format,
        of "[?p]" 0 0 ?p] scr mt
    by simp
  then have formula: "mem_percent ?p = 100 * to_double 800000 / to_double 8000000"
    using mt by (simp add: ex_proc_def)
  have info: "os_meminfo ?os = Some (8000000, 0, 4000000)"
    by (simp add: ex_os_def)
  have small: "mem_total_kb (init_state [''sysmon''] ex_boot_small) = 4000000"
    by (simp add: init_state_def ex_boot_small_def ex_os_def Let_def)
  have cur: "map (\<lambda>kv. (fst kv, mem_kb (snd kv), mem_percent (snd kv)))
      (cur_procs (refresh_cycle ?os ex_init)) = [(7, 800000, 10)]"
    by (simp add: ex_init_def ex_eval)
  have "map (\<lambda>kv. (fst kv, mem_kb (snd kv), mem_percent (snd kv)))
      (cur_procs (refresh_cycle ?os (init_state [''sysmon''] ex_boot_small))) =
    map (\<lambda>kv. (fst kv, mem_kb (snd kv), mem_percent (snd kv)))
      (cur_procs (refresh_cycle ?os ex_init))"
    using mem_percent_current_snapshot [of ?os ex_init, THEN conjunct2, THEN conjunct2,
        THEN conjunct2, THEN conjunct1, rule_format,
        of "init_state [''sysmon''] ex_boot_small"] info
    by simp
  with cur scr mt formula info small show ?thesis by simp
qed

text \<open>The claim as stated fails when \<^verbatim>\<open>/proc/meminfo\<close> cannot be opened: on the same answers
  of the platform, the process with 800,000 KB is reported at 10 percent after a start
  that read a total of 8,000,000 KB and at 20 percent after one that read 4,000,000 KB.\<close>

theorem mem_percent_stored_total:
  "os_meminfo ex_os_nomem = None \<and>
   map (\<lambda>kv. (fst kv, mem_kb (snd kv), mem_percent (snd kv)))
     (cur_procs (refresh_cycle ex_os_nomem ex_init)) = [(7, 800000, 10)] \<and>
   map (\<lambda>kv. (fst kv, mem_kb (snd kv), mem_percent (snd kv)))
     (cur_procs (refresh_cycle ex_os_nomem (init_state [''sysmon''] ex_boot_small)))
     = [(7, 800000, 20)]"
  by (simp add: ex_os_nomem_def ex_boot_small_def ex_init_def ex_eval)

subsection \<open>C5: moving the selection\<close>



lemma refresh_cycle_selection:
  "selected (refresh_cycle os s) = clamp_selected (selected s) (int (length (cur_procs (refresh_cycle os s))))"
  "page_offset (refresh_cycle os s) =
     adjust_page_offset (selected (refresh_cycle os s)) (page_offset s) (os_body_maxy os)"
  by (simp_all add: refresh_cycle_def Let_def length_sort_processes length_view_of)




lemma handle_input_moves:
  "handle_input os KEY_UP s =
     Inr (s\<lparr>selected := (if selected s > 0 then selected s - 1 else selected s),
            page_offset := (if (if selected s > 0 then selected s - 1 else selected s) < page_offset s
                            then (if selected s > 0 then selected s - 1 else selected s)
                            else page_offset s)\<rparr>)"
  "handle_input os KEY_DOWN s = Inr (s\<lparr>selected := wrap32 (selected s + 1)\<rparr>)"
  "handle_input os KEY_NPAGE s =
     Inr (s\<lparr>selected := wrap32 (selected s + max 1 (wrap32 (os_body_maxy os - 3)))\<rparr>)"
  "handle_input os KEY_PPAGE s =
     Inr (s\<lparr>selected :=
             (if wrap32 (selected s - max 1 (wrap32 (os_body_maxy os - 3))) < 0 then 0
              else wrap32 (selected s - max 1 (wrap32 (os_body_maxy os - 3))))\<rparr>)"
  by (simp_all add: handle_input_def Let_def)









text \<open>At the largest \<^verbatim>\<open>int\<close> the down key wraps the selection around to the smallest, and the
  next refresh cycle puts it on row 0.\<close>

lemma key_down_at_int_max:
  "handle_input os KEY_DOWN (s\<lparr>selected := 2147483647\<rparr>) =
     Inr (s\<lparr>selected := - 2147483648\<rparr>)"
  "selected (refresh_cycle os2 (s\<lparr>selected := - 2147483648\<rparr>)) = 0"
  by (simp_all add: handle_input_moves wrap32_def refresh_cycle_selection(1) clamp_selected_def
      Let_def)

subsection \<open>C10: the kill key without a target\<close>

lemma kill_selected_no_fault: "\<exists>s'. kill_selected os s = Inr s'"
  by (simp add: kill_selected_def vec_at_def Let_def)

lemma handle_input_no_fault: "\<exists>s'. handle_input os ch s = Inr s'"
  using kill_selected_no_fault [of os s]
  by (auto simp add: handle_input_def Let_def)

lemma handle_input_kill:
  "handle_input os (KeyChar CHR ''k'') s = kill_selected os s"
  "handle_input os (KeyChar CHR ''K'') s = kill_selected os s"
  by (simp_all add: handle_input_def)

text \<open>
  C10. When the kill key is pressed while the process map is empty, or while the selection
  is outside \<open>[0, size - 1]\<close> of the sorted list, the handler returns the state as it was:
  no dialog is entered and no signal is sent (both are recorded in the state), sort mode,
  selection, page offset, previous snapshot and refresh timer are unchanged, and the
  iteration goes on as one without a key. No key in any state makes the handler read
  outside the vector.
\<close>

theorem kill_key_without_target:
  assumes key: "ch = KeyChar CHR ''k'' \<or> ch = KeyChar CHR ''K''"
    and none: "cur_procs s = [] \<or>
              \<not> (0 \<le> selected s \<and>
                 selected s < int (length (sort_processes (map snd (cur_procs s)) (sort_mode s))))"
  shows "handle_input os ch s = Inr s \<and>
         (os_getch os = Some ch \<longrightarrow> loop_iter os s = Inr (periodic_refresh os s)) \<and>
         (\<forall>s0 c. \<exists>s1. handle_input os c s0 = Inr s1)"
proof -
  from none have guard: "\<not> (0 \<le> selected s \<and>
      selected s < int (length (sort_processes (map snd (cur_procs s)) (sort_mode s))))"
    by (auto simp: length_sort_processes)
  have k: "kill_selected os s = Inr s"
    unfolding kill_selected_def Let_def using guard by (rule if_not_P)
  with key have h: "handle_input os ch s = Inr s"
    by (elim disjE) (simp_all add: handle_input_kill)
  have "os_getch os = Some ch \<longrightarrow> loop_iter os s = Inr (periodic_refresh os s)"
    using key h by (elim disjE) (simp_all add: loop_iter_def)
  with h handle_input_no_fault show ?thesis by blast
qed

text \<open>The theorem at the start of a run, before the first refresh has filled the map.\<close>

theorem kill_key_without_target_witness:
  "cur_procs ex_init = [] \<and>
   handle_input ex_os_same (KeyChar CHR ''k'') ex_init = Inr ex_init \<and>
   dialogs ex_init = [] \<and> signals ex_init = []"
  using kill_key_without_target [of "KeyChar CHR ''k''" ex_init ex_os_same]
  by (simp add: ex_init_def init_state_def Let_def)

subsection \<open>C4: the target of the kill key\<close>

lemma view_of_cur_procs:
  "view_of (cur_procs (refresh_cycle os s)) (mem_total_kb (refresh_cycle os s)) =
     map snd (cur_procs (refresh_cycle os s))"
proof -
  let ?mt = "mem_total_kb (refresh_cycle os s)"
  have "(snd kv)\<lparr>mem_percent :=
          (if ?mt > 0 then 100 * to_double (mem_kb (snd kv)) / to_double ?mt else 0)\<rparr> = snd kv"
    if "kv \<in> set (cur_procs (refresh_cycle os s))" for kv
    using cur_procs_entries [OF that] by (auto simp: proc_entry_def)
  then show ?thesis
    unfolding view_of_def by (simp add: map_idI)
qed

text \<open>Right after a refresh cycle the list the kill handler rebuilds is the list that was
  rendered: the handler sorts the values of \<^verbatim>\<open>cur_procs\<close> by the current sort mode.\<close>

lemma kill_list_is_rendered_list:
  "screen (refresh_cycle os s) =
     Some (sort_processes (map snd (cur_procs (refresh_cycle os s)))
             (sort_mode (refresh_cycle os s)),
           selected (refresh_cycle os s), page_offset (refresh_cycle os s))"
  by (simp add: refresh_cycle_fields(5,7) view_of_cur_procs)

text \<open>
  C4. The claim says that the kill key targets the pid at the selection index of the last
  rendered list, whatever keys came between the last refresh and the kill key, a sort
  toggle included. The code does not do that after a sort toggle: the key \<^verbatim>\<open>s\<close> changes the
  sort mode without redrawing, and the kill handler sorts by the new mode. In the example
  run the list on the screen is sorted by CPU, pid 2 first, and the selection is on row 0
  when the kill key arrives; the dialog is opened for pid 1, the first entry by memory,
  and \<^verbatim>\<open>SIGTERM\<close> goes to pid 1.
\<close>

theorem kill_after_sort_toggle:
  "map_sum id (\<lambda>s. (map_option (\<lambda>v. map pid (fst v)) (screen s), selected s, sort_mode s,
                    signals s))
     (main_loop (take 2 ex_answers) ex_init) = Inr (Some [2, 1], 0, SORT_MEM, []) \<and>
   map_sum id (\<lambda>s. (dialogs s, signals s)) (main_loop ex_answers ex_init) =
     Inr ([1], [(1, SIGTERM)])"
  by (simp add: ex_answers_def ex_two_def ex_init_def loop_iter_def periodic_refresh_def
      handle_input_def seconds_def kill_selected_def confirm_kill_def vec_at_def ex_eval)

subsection \<open>C9: the refresh interval argument and the exit code\<close>

lemma digit_not_space_sign:
  "isdigit_c c \<Longrightarrow> \<not> isspace_c c \<and> c \<noteq> CHR ''-'' \<and> c \<noteq> CHR ''+''"
  by (auto simp: isdigit_c_def isspace_c_def)

lemma foldl_digits_nonneg:
  "0 \<le> acc \<Longrightarrow> \<forall>c \<in> set ds. isdigit_c c \<Longrightarrow>
   0 \<le> foldl (\<lambda>acc c. 10 * acc + (int (of_char c) - 48)) acc ds"
  by (induction ds arbitrary: acc) (auto simp: isdigit_c_def)

lemma digits_value_nonneg: "\<forall>c \<in> set ds. isdigit_c c \<Longrightarrow> 0 \<le> digits_value ds"
  unfolding digits_value_def by (rule foldl_digits_nonneg) simp_all

lemma takeWhile_digits:
  assumes "\<forall>c \<in> set ds. isdigit_c c" and "rest = [] \<or> \<not> isdigit_c (hd rest)"
  shows "takeWhile isdigit_c (ds @ rest) = ds"
proof -
  from assms(2) have "takeWhile isdigit_c rest = []" by (cases rest) auto
  with assms(1) show ?thesis by (simp add: takeWhile_append2)
qed

lemma stoi_digits:
  assumes "ds \<noteq> []" and d: "\<forall>c \<in> set ds. isdigit_c c"
    and r: "rest = [] \<or> \<not> isdigit_c (hd rest)"
  shows "stoi (ds @ rest) =
           (if digits_value ds > INT_MAX then Inl out_of_range else Inr (digits_value ds))"
proof -
  from assms(1) obtain c cs where ds: "ds = c # cs" by (cases ds) auto
  with d have c: "\<not> isspace_c c" "c \<noteq> CHR ''-''" "c \<noteq> CHR ''+''"
    using digit_not_space_sign [of c] by auto
  have t: "takeWhile isdigit_c (c # cs @ rest) = c # cs"
    using takeWhile_digits [OF d r] ds by simp
  have "INT_MIN \<le> digits_value ds"
    using digits_value_nonneg [OF d] by (simp add: INT_MIN_def)
  with c t ds show ?thesis
    by (simp add: stoi_def Let_def)
qed

lemma stoi_minus_digits:
  assumes "ds \<noteq> []" and d: "\<forall>c \<in> set ds. isdigit_c c"
    and r: "rest = [] \<or> \<not> isdigit_c (hd rest)"
  shows "stoi (CHR ''-'' # ds @ rest) =
           (if - digits_value ds < INT_MIN then Inl out_of_range else Inr (- digits_value ds))"
proof -
  have m: "\<not> isspace_c CHR ''-''" by (simp add: isspace_c_def)
  have "- digits_value ds \<le> INT_MAX"
    using digits_value_nonneg [OF d] by (simp add: INT_MAX_def)
  with m assms(1) takeWhile_digits [OF d r] show ?thesis
    by (simp add: stoi_def Let_def)
qed

lemma stoi_invalid:
  assumes "a = [] \<or>
    \<not> (isspace_c (hd a) \<or> isdigit_c (hd a) \<or> hd a = CHR ''-'' \<or> hd a = CHR ''+'')"
  shows "stoi a = Inl invalid_argument"
proof (cases a)
  case Nil
  then show ?thesis by (simp add: stoi_def)
next
  case (Cons c cs)
  with assms show ?thesis by (simp add: stoi_def Let_def)
qed

lemma stoi_range: "stoi a = Inr v \<Longrightarrow> INT_MIN \<le> v \<and> v \<le> INT_MAX"
  by (auto simp: stoi_def Let_def split: if_splits)

lemma parse_refresh_sec_range:
  "1 \<le> parse_refresh_sec argv \<and> parse_refresh_sec argv \<le> INT_MAX"
proof (cases "length argv \<ge> 2")
  case False
  then show ?thesis by (simp add: parse_refresh_sec_def INT_MAX_def)
next
  case True
  show ?thesis
  proof (cases "stoi (argv ! 1)")
    case (Inl e)
    with True show ?thesis by (simp add: parse_refresh_sec_def INT_MAX_def)
  next
    case (Inr v)
    with True stoi_range [OF Inr] show ?thesis by (simp add: parse_refresh_sec_def INT_MAX_def)
  qed
qed

lemma kill_selected_running: "\<exists>s1. kill_selected os s = Inr s1 \<and> running s1 = running s"
  by (simp add: kill_selected_def vec_at_def Let_def confirm_kill_def)

lemma handle_input_running: "\<exists>s1. handle_input os ch s = Inr s1 \<and> running s1 = running s"
  using kill_selected_running [of os s]
  by (simp add: handle_input_def Let_def)

lemma periodic_refresh_running: "running (periodic_refresh os s) = running s"
  by (simp add: periodic_refresh_def refresh_cycle_def Let_def)

lemma loop_iter_running:
  "\<exists>s1. loop_iter os s = Inr s1 \<and> running s1 = (running s \<and> \<not> is_quit os)" if "running s"
proof (cases "os_getch os")
  case None
  with that show ?thesis by (simp add: loop_iter_def is_quit_def periodic_refresh_running)
next
  case (Some ch)
  from handle_input_running [of os ch s] obtain s1
    where "handle_input os ch s = Inr s1" "running s1 = running s" by blast
  with Some that show ?thesis
    by (simp add: loop_iter_def is_quit_def periodic_refresh_running)
qed

lemma main_loop_running:
  "running s \<Longrightarrow>
   \<exists>s1. main_loop answers s = Inr s1 \<and> running s1 = (\<not> (\<exists>os \<in> set answers. is_quit os))"
proof (induction answers arbitrary: s)
  case Nil
  then show ?case by simp
next
  case (Cons os rest)
  from loop_iter_running [OF Cons.prems, of os] obtain s1
    where s1: "loop_iter os s = Inr s1" "running s1 = (running s \<and> \<not> is_quit os)" by blast
  show ?case
  proof (cases "is_quit os")
    case True
    with s1 Cons.prems have "main_loop (os # rest) s = Inr s1" "\<not> running s1"
      by (cases rest; simp)+
    with True show ?thesis by simp
  next
    case False
    with s1 Cons.prems have r: "running s1" by simp
    from Cons.IH [OF r] s1 Cons.prems False show ?thesis by simp
  qed
qed

lemma main_exit_code:
  "main argv boot answers = (if \<exists>os \<in> set answers. is_quit os then Some (Inr 0) else None)"
proof -
  have "running (init_state argv boot)" by (simp add: init_state_def Let_def)
  from main_loop_running [OF this, of answers] show ?thesis
    by (auto simp: main_def)
qed

lemma stoi_skip_space: "\<forall>c \<in> set ws. isspace_c c \<Longrightarrow> stoi (ws @ t) = stoi t"
  by (simp add: stoi_def dropWhile_append2)

lemma stoi_plus_digits:
  assumes "ds \<noteq> []" and d: "\<forall>c \<in> set ds. isdigit_c c"
    and r: "rest = [] \<or> \<not> isdigit_c (hd rest)"
  shows "stoi (CHR ''+'' # ds @ rest) =
           (if digits_value ds > INT_MAX then Inl out_of_range else Inr (digits_value ds))"
proof -
  have m: "\<not> isspace_c CHR ''+''" by (simp add: isspace_c_def)
  have "INT_MIN \<le> digits_value ds"
    using digits_value_nonneg [OF d] by (simp add: INT_MIN_def)
  with m assms(1) takeWhile_digits [OF d r] show ?thesis
    by (simp add: stoi_def Let_def)
qed

lemma stoi_sign_only:
  assumes "c = CHR ''+'' \<or> c = CHR ''-''" and "rest = [] \<or> \<not> isdigit_c (hd rest)"
  shows "stoi (c # rest) = Inl invalid_argument"
proof -
  have m: "\<not> isspace_c c" using assms(1) by (auto simp: isspace_c_def)
  from assms(2) have "takeWhile isdigit_c rest = []" by (cases rest) auto
  with m assms(1) show ?thesis by (auto simp: stoi_def Let_def)
qed

lemma digits_value_snoc:
  "digits_value [] = 0"
  "digits_value (ds @ [c]) = 10 * digits_value ds + (int (of_char c) - 48)"
  by (simp_all add: digits_value_def)

lemma char_mem_by_code:
  "(of_char c :: nat) \<in> of_char ` set cs \<Longrightarrow> c \<in> set cs"
  by auto

lemma isdigit_c_chars: "isdigit_c c \<longleftrightarrow> c \<in> set ''0123456789''"
proof
  assume "isdigit_c c"
  then have "48 \<le> (of_char c :: nat) \<and> (of_char c :: nat) \<le> 57"
    by (simp add: isdigit_c_def)
  then have "(of_char c :: nat) = 48 \<or> (of_char c :: nat) = 49 \<or> (of_char c :: nat) = 50 \<or>
      (of_char c :: nat) = 51 \<or> (of_char c :: nat) = 52 \<or> (of_char c :: nat) = 53 \<or>
      (of_char c :: nat) = 54 \<or> (of_char c :: nat) = 55 \<or> (of_char c :: nat) = 56 \<or>
      (of_char c :: nat) = 57"
    by presburger
  then have "(of_char c :: nat) \<in> of_char ` set ''0123456789''"
    by simp
  then show "c \<in> set ''0123456789''" by (rule char_mem_by_code)
next
  assume "c \<in> set ''0123456789''"
  then show "isdigit_c c" by (auto simp: isdigit_c_def)
qed

lemma isspace_c_codes: "isspace_c c \<longleftrightarrow> (of_char c :: nat) \<in> {9, 10, 11, 12, 13, 32}"
proof
  assume "isspace_c c"
  then show "(of_char c :: nat) \<in> {9, 10, 11, 12, 13, 32}" by (auto simp: isspace_c_def)
next
  assume "(of_char c :: nat) \<in> {9, 10, 11, 12, 13, 32}"
  then have "(of_char c :: nat) \<in>
      of_char ` set [CHR '' '', CHR 0x09, CHR 0x0A, CHR 0x0B, CHR 0x0C, CHR 0x0D]"
    by auto
  then show "isspace_c c" unfolding isspace_c_def by (rule char_mem_by_code)
qed

lemma parse_of_stoi:
  "stoi a = Inl e \<Longrightarrow> parse_refresh_sec (prog # a # args) = 2"
  "stoi a = Inr v \<Longrightarrow> parse_refresh_sec (prog # a # args) = (if v < 1 then 1 else v)"
  by (simp_all add: parse_refresh_sec_def)

text \<open>What \<^verbatim>\<open>stoi\<close> makes of every argument: white space, then an optional sign, then
  digits, then anything that does not begin with a digit.\<close>

lemma stoi_number:
  assumes ws: "\<forall>c \<in> set ws. isspace_c c" and "ds \<noteq> []" and d: "\<forall>c \<in> set ds. isdigit_c c"
    and r: "rest = [] \<or> \<not> isdigit_c (hd rest)"
  shows "stoi (ws @ ds @ rest) =
           (if digits_value ds > INT_MAX then Inl out_of_range else Inr (digits_value ds))"
    and "stoi (ws @ CHR ''+'' # ds @ rest) =
           (if digits_value ds > INT_MAX then Inl out_of_range else Inr (digits_value ds))"
    and "stoi (ws @ CHR ''-'' # ds @ rest) =
           (if - digits_value ds < INT_MIN then Inl out_of_range else Inr (- digits_value ds))"
  using stoi_skip_space [OF ws] stoi_digits [OF assms(2) d r] stoi_plus_digits [OF assms(2) d r]
    stoi_minus_digits [OF assms(2) d r]
  by simp_all

lemma stoi_no_number:
  assumes ws: "\<forall>c \<in> set ws. isspace_c c"
  shows "rest = [] \<or> \<not> (isspace_c (hd rest) \<or> isdigit_c (hd rest) \<or> hd rest = CHR ''-'' \<or>
           hd rest = CHR ''+'') \<Longrightarrow> stoi (ws @ rest) = Inl invalid_argument"
    and "c = CHR ''+'' \<or> c = CHR ''-'' \<Longrightarrow> rest = [] \<or> \<not> isdigit_c (hd rest) \<Longrightarrow>
           stoi (ws @ c # rest) = Inl invalid_argument"
  using stoi_skip_space [OF ws] stoi_invalid [of rest] stoi_sign_only [of c rest]
  by simp_all

text \<open>
  C9, as amended. The refresh interval is always between 1 and \<^verbatim>\<open>INT_MAX\<close>, and no
  argument makes the parsing fail. Without an argument it is 2. With an argument it is 2
  when \<^verbatim>\<open>stoi\<close> throws, and the value \<^verbatim>\<open>stoi\<close> returns, raised to 1 when it is below 1,
  otherwise. \<^verbatim>\<open>stoi\<close> skips white space, takes an optional sign and then the decimal digits,
  and ignores what follows them. So an argument (after white space) that begins with
  digits, or with \<^verbatim>\<open>+\<close> and digits, yields their value when that is between 1 and \<^verbatim>\<open>INT_MAX\<close>,
  1 when it is 0, and the default 2 when it does not fit an \<^verbatim>\<open>int\<close>; with \<^verbatim>\<open>-\<close> and digits it
  yields 1, or 2 when the value does not fit; an argument with no digit at that place (it
  is empty or all white space, or goes on with another character, or has a sign that no
  digit follows) yields 2. The program leaves the loop exactly when the user presses \<^verbatim>\<open>q\<close>
  or \<^verbatim>\<open>Q\<close>, and then exits with code 0.
\<close>

theorem refresh_interval_argument:
  "(\<forall>argv. 1 \<le> parse_refresh_sec argv \<and> parse_refresh_sec argv \<le> INT_MAX) \<and>
   (\<forall>argv. length argv < 2 \<longrightarrow> parse_refresh_sec argv = 2) \<and>
   (\<forall>prog a args e. stoi a = Inl e \<longrightarrow> parse_refresh_sec (prog # a # args) = 2) \<and>
   (\<forall>prog a args v. stoi a = Inr v \<longrightarrow>
      parse_refresh_sec (prog # a # args) = (if v < 1 then 1 else v)) \<and>
   (\<forall>ws ds rest.
      (\<forall>c \<in> set ws. isspace_c c) \<and> ds \<noteq> [] \<and> (\<forall>c \<in> set ds. isdigit_c c) \<and>
      (rest = [] \<or> \<not> isdigit_c (hd rest))
      \<longrightarrow> stoi (ws @ ds @ rest) =
            (if digits_value ds > INT_MAX then Inl out_of_range else Inr (digits_value ds)) \<and>
          stoi (ws @ CHR ''+'' # ds @ rest) =
            (if digits_value ds > INT_MAX then Inl out_of_range else Inr (digits_value ds)) \<and>
          stoi (ws @ CHR ''-'' # ds @ rest) =
            (if - digits_value ds < INT_MIN then Inl out_of_range
             else Inr (- digits_value ds))) \<and>
   (\<forall>ws rest.
      (\<forall>c \<in> set ws. isspace_c c) \<and>
      (rest = [] \<or> \<not> (isspace_c (hd rest) \<or> isdigit_c (hd rest) \<or> hd rest = CHR ''-'' \<or>
         hd rest = CHR ''+''))
      \<longrightarrow> stoi (ws @ rest) = Inl invalid_argument) \<and>
   (\<forall>ws c rest.
      (\<forall>c \<in> set ws. isspace_c c) \<and> (c = CHR ''+'' \<or> c = CHR ''-'') \<and>
      (rest = [] \<or> \<not> isdigit_c (hd rest))
      \<longrightarrow> stoi (ws @ c # rest) = Inl invalid_argument) \<and>
   (\<forall>prog ws ds rest args.
      (\<forall>c \<in> set ws. isspace_c c) \<and> ds \<noteq> [] \<and> (\<forall>c \<in> set ds. isdigit_c c) \<and>
      (rest = [] \<or> \<not> isdigit_c (hd rest))
      \<longrightarrow> parse_refresh_sec (prog # (ws @ ds @ rest) # args) =
            (if digits_value ds > INT_MAX then 2
             else if digits_value ds < 1 then 1
             else digits_value ds) \<and>
          parse_refresh_sec (prog # (ws @ CHR ''+'' # ds @ rest) # args) =
            (if digits_value ds > INT_MAX then 2
             else if digits_value ds < 1 then 1
             else digits_value ds) \<and>
          parse_refresh_sec (prog # (ws @ CHR ''-'' # ds @ rest) # args) =
            (if - digits_value ds < INT_MIN then 2 else 1)) \<and>
   (\<forall>ds c. digits_value [] = 0 \<and>
      digits_value (ds @ [c]) = 10 * digits_value ds + (int (of_char c) - 48)) \<and>
   (INT_MAX = 2147483647 \<and> INT_MIN = - 2147483648 \<and>
    (\<forall>c. (isdigit_c c \<longleftrightarrow> c \<in> set ''0123456789'') \<and>
         (isspace_c c \<longleftrightarrow> (of_char c :: nat) \<in> {9, 10, 11, 12, 13, 32}))) \<and>
   (\<forall>argv boot answers.
      main argv boot answers =
        (if \<exists>os \<in> set answers. is_quit os then Some (Inr 0) else None))"
proof -
  have range: "\<forall>argv. 1 \<le> parse_refresh_sec argv \<and> parse_refresh_sec argv \<le> INT_MAX"
    using parse_refresh_sec_range by blast
  have none: "\<forall>argv. length argv < 2 \<longrightarrow> parse_refresh_sec argv = 2"
    by (simp add: parse_refresh_sec_def)
  have thrown: "\<forall>prog a args e. stoi a = Inl e \<longrightarrow> parse_refresh_sec (prog # a # args) = 2"
    using parse_of_stoi(1) by blast
  have returned: "\<forall>prog a args v. stoi a = Inr v \<longrightarrow>
      parse_refresh_sec (prog # a # args) = (if v < 1 then 1 else v)"
    using parse_of_stoi(2) by blast
  have number: "\<forall>ws ds rest.
      (\<forall>c \<in> set ws. isspace_c c) \<and> ds \<noteq> [] \<and> (\<forall>c \<in> set ds. isdigit_c c) \<and>
      (rest = [] \<or> \<not> isdigit_c (hd rest))
      \<longrightarrow> stoi (ws @ ds @ rest) =
            (if digits_value ds > INT_MAX then Inl out_of_range else Inr (digits_value ds)) \<and>
          stoi (ws @ CHR ''+'' # ds @ rest) =
            (if digits_value ds > INT_MAX then Inl out_of_range else Inr (digits_value ds)) \<and>
          stoi (ws @ CHR ''-'' # ds @ rest) =
            (if - digits_value ds < INT_MIN then Inl out_of_range
             else Inr (- digits_value ds))"
  proof (intro allI impI, elim conjE)
    fix ws ds rest
    assume "\<forall>c \<in> set ws. isspace_c c" "ds \<noteq> []" "\<forall>c \<in> set ds. isdigit_c c"
      "rest = [] \<or> \<not> isdigit_c (hd rest)"
    from stoi_number [OF this]
    show "stoi (ws @ ds @ rest) =
            (if digits_value ds > INT_MAX then Inl out_of_range else Inr (digits_value ds)) \<and>
          stoi (ws @ CHR ''+'' # ds @ rest) =
            (if digits_value ds > INT_MAX then Inl out_of_range else Inr (digits_value ds)) \<and>
          stoi (ws @ CHR ''-'' # ds @ rest) =
            (if - digits_value ds < INT_MIN then Inl out_of_range
             else Inr (- digits_value ds))"
      by (intro conjI)
  qed
  have no_number: "\<forall>ws rest.
      (\<forall>c \<in> set ws. isspace_c c) \<and>
      (rest = [] \<or> \<not> (isspace_c (hd rest) \<or> isdigit_c (hd rest) \<or> hd rest = CHR ''-'' \<or>
         hd rest = CHR ''+''))
      \<longrightarrow> stoi (ws @ rest) = Inl invalid_argument"
  proof (intro allI impI, elim conjE)
    fix ws rest
    assume "\<forall>c \<in> set ws. isspace_c c"
      "rest = [] \<or> \<not> (isspace_c (hd rest) \<or> isdigit_c (hd rest) \<or> hd rest = CHR ''-'' \<or>
         hd rest = CHR ''+'')"
    then show "stoi (ws @ rest) = Inl invalid_argument" by (rule stoi_no_number(1))
  qed
  have sign_only: "\<forall>ws c rest.
      (\<forall>c \<in> set ws. isspace_c c) \<and> (c = CHR ''+'' \<or> c = CHR ''-'') \<and>
      (rest = [] \<or> \<not> isdigit_c (hd rest))
      \<longrightarrow> stoi (ws @ c # rest) = Inl invalid_argument"
  proof (intro allI impI, elim conjE)
    fix ws c rest
    assume "\<forall>c \<in> set ws. isspace_c c" "c = CHR ''+'' \<or> c = CHR ''-''"
      "rest = [] \<or> \<not> isdigit_c (hd rest)"
    then show "stoi (ws @ c # rest) = Inl invalid_argument" by (rule stoi_no_number(2))
  qed
  have parsed: "\<forall>prog ws ds rest args.
      (\<forall>c \<in> set ws. isspace_c c) \<and> ds \<noteq> [] \<and> (\<forall>c \<in> set ds. isdigit_c c) \<and>
      (rest = [] \<or> \<not> isdigit_c (hd rest))
      \<longrightarrow> parse_refresh_sec (prog # (ws @ ds @ rest) # args) =
            (if digits_value ds > INT_MAX then 2
             else if digits_value ds < 1 then 1
             else digits_value ds) \<and>
          parse_refresh_sec (prog # (ws @ CHR ''+'' # ds @ rest) # args) =
            (if digits_value ds > INT_MAX then 2
             else if digits_value ds < 1 then 1
             else digits_value ds) \<and>
          parse_refresh_sec (prog # (ws @ CHR ''-'' # ds @ rest) # args) =
            (if - digits_value ds < INT_MIN then 2 else 1)"
  proof (intro allI impI, elim conjE)
    fix prog :: string and ws ds rest :: string and args :: "string list"
    assume h: "\<forall>c \<in> set ws. isspace_c c" "ds \<noteq> []" "\<forall>c \<in> set ds. isdigit_c c"
      "rest = [] \<or> \<not> isdigit_c (hd rest)"
    have "0 \<le> digits_value ds" using h(3) by (rule digits_value_nonneg)
    with stoi_number [OF h]
    show "parse_refresh_sec (prog # (ws @ ds @ rest) # args) =
            (if digits_value ds > INT_MAX then 2
             else if digits_value ds < 1 then 1
             else digits_value ds) \<and>
          parse_refresh_sec (prog # (ws @ CHR ''+'' # ds @ rest) # args) =
            (if digits_value ds > INT_MAX then 2
             else if digits_value ds < 1 then 1
             else digits_value ds) \<and>
          parse_refresh_sec (prog # (ws @ CHR ''-'' # ds @ rest) # args) =
            (if - digits_value ds < INT_MIN then 2 else 1)"
      by (simp add: parse_refresh_sec_def)
  qed
  have digits: "\<forall>ds c. digits_value [] = 0 \<and>
      digits_value (ds @ [c]) = 10 * digits_value ds + (int (of_char c) - 48)"
    by (simp add: digits_value_snoc)
  have bounds: "INT_MAX = 2147483647" "INT_MIN = - 2147483648"
    by (simp_all add: INT_MAX_def INT_MIN_def)
  have classes: "\<forall>c. (isdigit_c c \<longleftrightarrow> c \<in> set ''0123456789'') \<and>
      (isspace_c c \<longleftrightarrow> (of_char c :: nat) \<in> {9, 10, 11, 12, 13, 32})"
    using isdigit_c_chars isspace_c_codes by blast
  have exit_code: "\<forall>argv boot answers.
      main argv boot answers =
        (if \<exists>os \<in> set answers. is_quit os then Some (Inr 0) else None)"
    using main_exit_code by blast
  from range none thrown returned number no_number sign_only parsed digits bounds classes
    exit_code
  show ?thesis by (intro conjI)
qed

text \<open>The theorem at the arguments \<^verbatim>\<open>5\<close>, \<^verbatim>\<open> 7\<close> and \<^verbatim>\<open>+4\<close>, and at a run in which the user
  presses \<^verbatim>\<open>q\<close>.\<close>

theorem refresh_interval_argument_witness:
  "isspace_c CHR '' '' \<and> isdigit_c CHR ''5'' \<and> isdigit_c CHR ''7'' \<and> isdigit_c CHR ''4'' \<and>
   parse_refresh_sec [''sysmon'', ''5''] = 5 \<and>
   parse_refresh_sec [''sysmon'', '' 7''] = 7 \<and>
   parse_refresh_sec [''sysmon'', ''+4''] = 4 \<and>
   is_quit (ex_os (Some (KeyChar CHR ''q'')) [] [] 0) \<and>
   main [''sysmon'', ''5''] (ex_os None [] [] 0) [ex_os (Some (KeyChar CHR ''q'')) [] [] 0]
     = Some (Inr 0)"
proof -
  have sp: "isspace_c CHR '' ''" by (simp add: isspace_c_def)
  have d: "isdigit_c CHR ''5''" "isdigit_c CHR ''7''" "isdigit_c CHR ''4''"
    by (simp_all add: isdigit_c_def)
  have v: "digits_value ''5'' = 5" "digits_value ''7'' = 7" "digits_value ''4'' = 4"
    by (simp_all add: digits_value_def)
  have q: "is_quit (ex_os (Some (KeyChar CHR ''q'')) [] [] 0)"
    by (simp add: is_quit_def ex_os_def)
  note parsed = refresh_interval_argument [THEN conjunct2, THEN conjunct2, THEN conjunct2,
      THEN conjunct2, THEN conjunct2, THEN conjunct2, THEN conjunct2, THEN conjunct1,
      rule_format]
  have "parse_refresh_sec (''sysmon'' # ([] @ ''5'' @ []) # []) =
      (if digits_value ''5'' > INT_MAX then 2 else if digits_value ''5'' < 1 then 1
       else digits_value ''5'')"
    by (rule parsed [THEN conjunct1]) (simp add: d)
  then have p5: "parse_refresh_sec [''sysmon'', ''5''] = 5"
    using v by (simp add: INT_MAX_def)
  have "parse_refresh_sec (''sysmon'' # ('' '' @ ''7'' @ []) # []) =
      (if digits_value ''7'' > INT_MAX then 2 else if digits_value ''7'' < 1 then 1
       else digits_value ''7'')"
    by (rule parsed [THEN conjunct1]) (simp add: d sp)
  then have p7: "parse_refresh_sec [''sysmon'', '' 7''] = 7"
    using v by (simp add: INT_MAX_def)
  have "parse_refresh_sec (''sysmon'' # ([] @ CHR ''+'' # ''4'' @ []) # []) =
      (if digits_value ''4'' > INT_MAX then 2 else if digits_value ''4'' < 1 then 1
       else digits_value ''4'')"
    by (rule parsed [THEN conjunct2, THEN conjunct1]) (simp add: d)
  then have p4: "parse_refresh_sec [''sysmon'', ''+4''] = 4"
    using v by (simp add: INT_MAX_def)
  have m: "main [''sysmon'', ''5''] (ex_os None [] [] 0)
      [ex_os (Some (KeyChar CHR ''q'')) [] [] 0] = Some (Inr 0)"
    using q
    by (simp add: refresh_interval_argument [THEN conjunct2, THEN conjunct2, THEN conjunct2,
          THEN conjunct2, THEN conjunct2, THEN conjunct2, THEN conjunct2, THEN conjunct2,
          THEN conjunct2, THEN conjunct2, rule_format])
  from sp d p5 p7 p4 q m show ?thesis by simp
qed

text \<open>The claim as stated fails in two ways: the numeric argument \<^verbatim>\<open>99999999999\<close> is not
  used as given but replaced by the default 2 (it does not fit an \<^verbatim>\<open>int\<close>), and the
  argument \<^verbatim>\<open>5x\<close>, which is not a number, does not yield the default but 5.\<close>

theorem refresh_interval_not_as_given:
  "parse_refresh_sec [''sysmon'', ''99999999999''] = 2 \<and>
   parse_refresh_sec [''sysmon'', ''5x''] = 5"
  by (simp add: parse_refresh_sec_def stoi_def isspace_c_def isdigit_c_def digits_value_def
      INT_MAX_def INT_MIN_def)

end
